theory Spec2Isabelle
  imports Complex_Main "HOL-Library.Word" "HOL-Library.Log_Nat"
begin

section \<open>Machine types of the reader\<close>

text \<open>
  The chunked reader of \<^verbatim>\<open>csv/reader.cc\<close> works on \<^verbatim>\<open>size_t\<close> counters, on
  \<^verbatim>\<open>const char*\<close> offsets into the input, on one \<^verbatim>\<open>int\<close> (the number of threads)
  and on a few \<^verbatim>\<open>double\<close> values. On the 64-bit targets of the library \<^verbatim>\<open>size_t\<close>
  and pointers are 64-bit words whose arithmetic wraps, and \<^verbatim>\<open>int\<close> is a 32-bit
  two's-complement word (read with \<open>sint\<close>).
\<close>

type_synonym size_t = "64 word"
type_synonym ptr = "64 word"
type_synonym cint = "32 word"

subsection \<open>IEEE binary64 values\<close>

text \<open>
  A \<^verbatim>\<open>double\<close> is either a NaN, an infinity, or a finite value, kept here as the
  number it denotes (the sign of a zero is not kept). Arithmetic rounds the exact
  result to the nearest value with a 53-bit significand, ties to even, with the gradual
  underflow and the overflow threshold of binary64.
\<close>

datatype double = NaN | PInf | NInf | Fin real

definition pow2 :: "int \<Rightarrow> real" where
  "pow2 e = 2 powi e"

definition ilog2 :: "real \<Rightarrow> int" where
  \<comment> \<open>the exponent \<open>k\<close> with \<open>2\<^sup>k \<le> q < 2\<^sup>k\<^sup>+\<^sup>1\<close>, for \<open>q > 0\<close>\<close>
  "ilog2 q = (if 1 \<le> q then bitlen \<lfloor>q\<rfloor> - 1 else - bitlen (\<lceil>1 / q\<rceil> - 1))"

definition round_even :: "real \<Rightarrow> int" where
  "round_even x =
     (let f = \<lfloor>x\<rfloor>; d = x - of_int f
      in if d < 1 / 2 then f else if 1 / 2 < d then f + 1
         else if even f then f else f + 1)"

definition round_to_53 :: "real \<Rightarrow> real" where
  \<comment> \<open>the nearest multiple of the unit in the last place of \<open>q\<close>, for \<open>q \<noteq> 0\<close>\<close>
  "round_to_53 q =
     (let e = max (ilog2 \<bar>q\<bar> - 52) (- 1074);
          u = pow2 e
      in of_int (round_even (q / u)) * u)"

definition round_binary64 :: "real \<Rightarrow> double" where
  "round_binary64 q =
     (if q = 0 then Fin 0
      else let r = round_to_53 q
           in if pow2 1024 \<le> r then PInf
              else if r \<le> - pow2 1024 then NInf
              else Fin r)"

definition dsign :: "double \<Rightarrow> int" where
  "dsign d = (case d of NaN \<Rightarrow> 0 | PInf \<Rightarrow> 1 | NInf \<Rightarrow> - 1
              | Fin q \<Rightarrow> (if q < 0 then - 1 else 1))"

definition dinf :: "int \<Rightarrow> double" where
  "dinf s = (if s < 0 then NInf else PInf)"

definition dmul :: "double \<Rightarrow> double \<Rightarrow> double" where
  "dmul a b =
     (case (a, b) of
        (Fin x, Fin y) \<Rightarrow> round_binary64 (x * y)
      | _ \<Rightarrow> if a = NaN \<or> b = NaN \<or> a = Fin 0 \<or> b = Fin 0 then NaN
             else dinf (dsign a * dsign b))"

definition ddiv :: "double \<Rightarrow> double \<Rightarrow> double" where
  "ddiv a b =
     (case (a, b) of
        (Fin x, Fin y) \<Rightarrow>
          if y = 0 then (if x = 0 then NaN else dinf (dsign a))
          else round_binary64 (x / y)
      | (Fin x, _) \<Rightarrow> if b = NaN then NaN else Fin 0
      | (_, Fin y) \<Rightarrow> if a = NaN then NaN else dinf (dsign a * dsign b)
      | _ \<Rightarrow> NaN)"

definition dadd :: "double \<Rightarrow> double \<Rightarrow> double" where
  "dadd a b =
     (case (a, b) of
        (Fin x, Fin y) \<Rightarrow> round_binary64 (x + y)
      | _ \<Rightarrow> if a = NaN \<or> b = NaN then NaN
             else if a = PInf \<and> b = NInf \<or> a = NInf \<and> b = PInf then NaN
             else if a = PInf \<or> b = PInf then PInf else NInf)"

definition dless :: "double \<Rightarrow> double \<Rightarrow> bool" where
  \<comment> \<open>the comparison \<^verbatim>\<open>a < b\<close>: false as soon as one side is a NaN\<close>
  "dless a b =
     (case (a, b) of
        (Fin x, Fin y) \<Rightarrow> x < y
      | (NaN, _) \<Rightarrow> False
      | (_, NaN) \<Rightarrow> False
      | (NInf, _) \<Rightarrow> b \<noteq> NInf
      | (_, PInf) \<Rightarrow> a \<noteq> PInf
      | _ \<Rightarrow> False)"

definition dle :: "double \<Rightarrow> double \<Rightarrow> bool" where
  \<comment> \<open>the comparison \<^verbatim>\<open>a <= b\<close>\<close>
  "dle a b = (a \<noteq> NaN \<and> b \<noteq> NaN \<and> (dless a b \<or> a = b))"

definition dmax :: "double \<Rightarrow> double \<Rightarrow> double" where
  \<comment> \<open>\<^verbatim>\<open>std::max(a, b)\<close>, which is \<^verbatim>\<open>(a < b) ? b : a\<close>\<close>
  "dmax a b = (if dless a b then b else a)"

text \<open>
  Conversions. \<^verbatim>\<open>static_cast<size_t>(d)\<close> truncates towards zero and is undefined
  when the truncated value does not fit (\<open>None\<close>); an integer converted to
  \<^verbatim>\<open>double\<close> is rounded.
\<close>

definition size_of_double :: "double \<Rightarrow> size_t option" where
  "size_of_double d =
     (case d of
        Fin q \<Rightarrow>
          (let t = (if 0 \<le> q then \<lfloor>q\<rfloor> else \<lceil>q\<rceil>)
           in if 0 \<le> t \<and> t < 2 ^ 64 then Some (word_of_int t) else None)
      | _ \<Rightarrow> None)"

definition double_of_size :: "size_t \<Rightarrow> double" where
  "double_of_size w = round_binary64 (of_nat (unat w))"

definition double_of_ptrdiff :: "64 word \<Rightarrow> double" where
  "double_of_ptrdiff w = round_binary64 (of_int (sint w))"

section \<open>Data of the reader\<close>

text \<open>
  \<^verbatim>\<open>ChunkCoordinates\<close> (field \<^verbatim>\<open>end\<close> is \<open>endp\<close> here), the fields of the
  \<^verbatim>\<open>GenericReader\<close> that the chunked reader uses (its column store is represented by
  its number of rows), and the fields of \<^verbatim>\<open>ChunkedDataReader\<close> itself. The output of
  \<^verbatim>\<open>g.trace\<close> is diagnostic only and is not recorded.
\<close>

record ChunkCoordinates =
  start :: ptr
  endp :: ptr
  true_start :: bool
  true_end :: bool

record GenericReader =
  sof :: ptr
  eof :: ptr
  g_nthreads :: cint
  max_nrows :: size_t
  report_progress :: bool
  columns_nrows :: size_t

record ChunkedDataReader =
  chunkSize :: size_t
  chunkCount :: size_t
  inputStart :: ptr
  inputEnd :: ptr
  lastChunkEnd :: ptr
  lineLength :: double
  nthreads :: cint
  nrows_written :: size_t
  nrows_allocated :: size_t
  nrows_max :: size_t
  g :: GenericReader

datatype error = ParseError | AllocationError | KeyboardInterrupt | AssertionError

section \<open>The chunking planner\<close>

text \<open>
  \<^verbatim>\<open>determine_chunking_strategy\<close>. The result is \<open>None\<close> where the C++ has no defined
  behaviour: the conversion of \<^verbatim>\<open>1000 * lineLength\<close> out of range, or a division by
  zero.
\<close>

definition determine_chunking_strategy :: "ChunkedDataReader \<Rightarrow> ChunkedDataReader option" where
  "determine_chunking_strategy r =
     (let inputSize = inputEnd r - inputStart r
      in case size_of_double (dmul (Fin 1000) (lineLength r)) of
           None \<Rightarrow> None
         | Some size1000 \<Rightarrow>
             (let zThreads = (scast (nthreads r) :: size_t);
                  chunkSize0 = max size1000 (push_bit 18 1);
                  chunkCount0 = max (inputSize div chunkSize0) 1
              in if chunkSize0 = 0 then None
                 else if chunkCount0 > zThreads then
                   (if zThreads = 0 then None
                    else let chunkCount1 = zThreads * (1 + (chunkCount0 - 1) div zThreads)
                         in if chunkCount1 = 0 then None
                            else Some (r\<lparr>chunkCount := chunkCount1,
                                         chunkSize := inputSize div chunkCount1\<rparr>))
                 else Some (r\<lparr>chunkCount := chunkCount0,
                              nthreads := ucast chunkCount0,
                              chunkSize := inputSize div chunkCount0\<rparr>)))"

text \<open>
  The constructor. \<^verbatim>\<open>xassert\<close> comes from \<^verbatim>\<open>utils/assert.h\<close>, which is not among the
  sources.

  Modelled from the spec: \<^verbatim>\<open>xassert\<close> (the macro of \<^verbatim>\<open>utils/assert.h\<close>) raises an
  error when its condition is false.
\<close>

definition new_ChunkedDataReader ::
  "GenericReader \<Rightarrow> double \<Rightarrow> (error + ChunkedDataReader) option" where
  "new_ChunkedDataReader reader meanLineLen =
     (let r = \<lparr>chunkSize = 0, chunkCount = 0,
               inputStart = sof reader, inputEnd = eof reader,
               lastChunkEnd = sof reader,
               lineLength = dmax meanLineLen (Fin 1),
               nthreads = g_nthreads reader,
               nrows_written = 0,
               nrows_allocated = columns_nrows reader,
               nrows_max = max_nrows reader,
               g = reader\<rparr>
      in if \<not> nrows_allocated r \<le> nrows_max r then Some (Inl AssertionError)
         else map_option Inr (determine_chunking_strategy r))"

section \<open>Collaborators and per-worker state\<close>

text \<open>
  The parse context is a collaborator: the reader sets its \<^verbatim>\<open>row0\<close> and
  \<^verbatim>\<open>used_nrows\<close> and calls \<^verbatim>\<open>read_chunk\<close>, \<^verbatim>\<open>push_buffers\<close> and
  \<^verbatim>\<open>orderBuffer\<close> on it. Whatever else it holds is \<open>buffers\<close>, of any type. The
  collaborators are parameters of the model: each method takes the context and returns
  the exception it raised, if any, with the context as it left it. \<^verbatim>\<open>read_chunk\<close>
  takes the expected coordinates and the variable for the actual ones.
\<close>

record 'p LocalParseContext =
  row0 :: size_t
  used_nrows :: size_t
  buffers :: 'p

record 'p collaborators =
  read_chunk :: "ChunkCoordinates \<Rightarrow> ChunkCoordinates \<Rightarrow> 'p LocalParseContext
                 \<Rightarrow> error option \<times> ChunkCoordinates \<times> 'p LocalParseContext"
  push_buffers :: "'p LocalParseContext \<Rightarrow> error option \<times> 'p LocalParseContext"
  orderBuffer :: "'p LocalParseContext \<Rightarrow> error option \<times> 'p LocalParseContext"
  init_thread_context :: "'p LocalParseContext"
  adjust_chunk_coordinates :: "ChunkCoordinates \<Rightarrow> 'p LocalParseContext \<Rightarrow> ChunkCoordinates"
  set_nrows_raises :: "size_t \<Rightarrow> error option"
  progress_raises :: "nat \<Rightarrow> error option"
  wallclock :: "nat \<Rightarrow> double"

text \<open>
  \<open>set_nrows_raises n\<close> is the exception of \<^verbatim>\<open>g.columns.set_nrows(n)\<close>, if it raises;
  \<open>progress_raises k\<close> the exception of the \<open>k\<close>-th call of \<^verbatim>\<open>g.progress\<close> (counted
  from 0); \<open>wallclock k\<close> the value of the \<open>k\<close>-th reading of the clock.

  The calls made on a worker's context are recorded in the order they happen.
\<close>

datatype call = ReadChunk ChunkCoordinates | PushBuffers | OrderBuffer

record 'p thread =
  tctx :: "'p LocalParseContext"
  txcc :: ChunkCoordinates
  tacc :: ChunkCoordinates
  calls :: "call list"
  tMaster :: bool
  tShowProgress :: bool
  tShowAlways :: bool
  tShowWhen :: double

text \<open>
  What the workers share during \<^verbatim>\<open>read_all\<close>: the reader object, the exception
  manager, the progress events sent to \<^verbatim>\<open>g.progress\<close> (the amount and the status,
  when one is passed) and the number of clock readings so far.

  Modelled from the spec: \<^verbatim>\<open>OmpExceptionManager\<close> (declared outside the sources) is a
  single slot that keeps the first exception captured; \<^verbatim>\<open>exception_caught\<close> tells
  whether it is filled, \<^verbatim>\<open>is_keyboard_interrupt\<close> whether it holds a keyboard
  interrupt.
\<close>

record run =
  rdr :: ChunkedDataReader
  oem :: "error option"
  progress_log :: "(double \<times> int option) list"
  nclock :: nat

definition capture_exception :: "error \<Rightarrow> run \<Rightarrow> run" where
  "capture_exception e w = (case oem w of None \<Rightarrow> w\<lparr>oem := Some e\<rparr> | Some _ \<Rightarrow> w)"

definition exception_caught :: "run \<Rightarrow> bool" where
  "exception_caught w = (oem w \<noteq> None)"

definition is_keyboard_interrupt :: "run \<Rightarrow> bool" where
  "is_keyboard_interrupt w = (oem w = Some KeyboardInterrupt)"

definition call_read_chunk :: "'p collaborators \<Rightarrow> 'p thread \<Rightarrow> error option \<times> 'p thread" where
  \<comment> \<open>\<^verbatim>\<open>tctx->read_chunk(txcc, tacc)\<close>\<close>
  "call_read_chunk env t =
     (case read_chunk env (txcc t) (tacc t) (tctx t) of
        (e, acc, ctx) \<Rightarrow> (e, t\<lparr>tctx := ctx, tacc := acc, calls := calls t @ [ReadChunk (txcc t)]\<rparr>))"

definition call_push_buffers :: "'p collaborators \<Rightarrow> 'p thread \<Rightarrow> error option \<times> 'p thread" where
  "call_push_buffers env t =
     (case push_buffers env (tctx t) of
        (e, ctx) \<Rightarrow> (e, t\<lparr>tctx := ctx, calls := calls t @ [PushBuffers]\<rparr>))"

definition call_orderBuffer :: "'p collaborators \<Rightarrow> 'p thread \<Rightarrow> error option \<times> 'p thread" where
  "call_orderBuffer env t =
     (case orderBuffer env (tctx t) of
        (e, ctx) \<Rightarrow> (e, t\<lparr>tctx := ctx, calls := calls t @ [OrderBuffer]\<rparr>))"

definition set_nrows ::
  "'p collaborators \<Rightarrow> size_t \<Rightarrow> ChunkedDataReader \<Rightarrow> error option \<times> ChunkedDataReader" where
  \<comment> \<open>\<^verbatim>\<open>g.columns.set_nrows(n)\<close>\<close>
  "set_nrows env n r =
     (case set_nrows_raises env n of
        Some e \<Rightarrow> (Some e, r)
      | None \<Rightarrow> (None, r\<lparr>g := (g r)\<lparr>columns_nrows := n\<rparr>\<rparr>))"

definition emit_progress ::
  "'p collaborators \<Rightarrow> double \<Rightarrow> int option \<Rightarrow> run \<Rightarrow> error option \<times> run" where
  \<comment> \<open>\<^verbatim>\<open>g.progress(amount)\<close> and \<^verbatim>\<open>g.progress(amount, status)\<close>\<close>
  "emit_progress env amount status w =
     (progress_raises env (length (progress_log w)),
      w\<lparr>progress_log := progress_log w @ [(amount, status)]\<rparr>)"

section \<open>Boundaries, allocation and reconciliation\<close>

text \<open>
  Modelled from the spec: a fresh \<^verbatim>\<open>ChunkCoordinates\<close> (its constructor is in
  \<^verbatim>\<open>csv/reader.h\<close>, outside the sources) has null offsets and both flags false.
\<close>

definition new_ChunkCoordinates :: ChunkCoordinates where
  "new_ChunkCoordinates = \<lparr>start = 0, endp = 0, true_start = False, true_end = False\<rparr>"

definition compute_chunk_boundaries ::
  "'p collaborators \<Rightarrow> ChunkedDataReader \<Rightarrow> size_t \<Rightarrow> 'p LocalParseContext
   \<Rightarrow> error + ChunkCoordinates" where
  "compute_chunk_boundaries env r i ctx =
     (if \<not> i < chunkCount r then Inl AssertionError
      else
        let c = new_ChunkCoordinates;
            isFirstChunk = (i = 0);
            isLastChunk = (i = chunkCount r - 1);
            c = (if nthreads r = 1 \<or> isFirstChunk
                 then c\<lparr>start := lastChunkEnd r, true_start := True\<rparr>
                 else c\<lparr>start := inputStart r + i * chunkSize r\<rparr>);
            c = (if isLastChunk
                 then c\<lparr>endp := inputEnd r, true_end := True\<rparr>
                 else c\<lparr>endp := start c + chunkSize r\<rparr>)
        in Inr (adjust_chunk_coordinates env c ctx))"

definition work_done_amount :: "ChunkedDataReader \<Rightarrow> double" where
  "work_done_amount r =
     (let done = double_of_ptrdiff (lastChunkEnd r - inputStart r);
          total = double_of_ptrdiff (inputEnd r - inputStart r)
      in ddiv done total)"

text \<open>The literal \<^verbatim>\<open>1.2\<close> is the double nearest to 6/5.\<close>

definition double_1_2 :: double where
  "double_1_2 = round_binary64 (6 / 5)"

definition exp_nrows :: "ChunkedDataReader \<Rightarrow> size_t \<Rightarrow> size_t \<Rightarrow> double" where
  \<comment> \<open>\<^verbatim>\<open>1.2 * new_alloc * chunkCount / (ichunk + 1)\<close>, evaluated from the left\<close>
  "exp_nrows r ichunk new_alloc =
     ddiv (dmul (dmul double_1_2 (double_of_size new_alloc)) (double_of_size (chunkCount r)))
          (double_of_size (ichunk + 1))"

text \<open>
  \<^verbatim>\<open>realloc_output_columns\<close>: \<open>None\<close> where the conversion of \<^verbatim>\<open>exp_nrows\<close> to
  \<^verbatim>\<open>size_t\<close> has no defined result. The lock is taken and released around nothing
  and has no effect on the counters.
\<close>

definition realloc_output_columns ::
  "'p collaborators \<Rightarrow> size_t \<Rightarrow> size_t \<Rightarrow> ChunkedDataReader
   \<Rightarrow> (error option \<times> ChunkedDataReader) option" where
  "realloc_output_columns env ichunk new_alloc r =
     (case (if ichunk = chunkCount r - 1 then Some new_alloc
            else case size_of_double (exp_nrows r ichunk new_alloc) of
                   None \<Rightarrow> None
                 | Some e \<Rightarrow> Some (max e (1024 + nrows_allocated r))) of
        None \<Rightarrow> None
      | Some new_alloc1 \<Rightarrow>
          (let new_alloc2 = (if new_alloc1 > nrows_max r then nrows_max r else new_alloc1);
               r1 = r\<lparr>nrows_allocated := new_alloc2\<rparr>
           in Some (set_nrows env (nrows_allocated r1) r1)))"

text \<open>
  \<^verbatim>\<open>order_chunk\<close>. The counter \<^verbatim>\<open>i\<close> starts at 2 and \<^verbatim>\<open>while (i--)\<close> enters the
  body while it is not 0, decrementing it first; \<^verbatim>\<open>xassert(i)\<close> then sees the
  decremented value. An exception of \<^verbatim>\<open>read_chunk\<close> leaves the function.
\<close>

fun order_chunk_loop ::
  "'p collaborators \<Rightarrow> nat \<Rightarrow> ChunkedDataReader \<times> 'p thread
   \<Rightarrow> error option \<times> ChunkedDataReader \<times> 'p thread" where
  "order_chunk_loop env 0 (r, t) = (None, r, t)"
| "order_chunk_loop env (Suc i) (r, t) =
     (if start (tacc t) = lastChunkEnd r \<and> endp (tacc t) \<ge> lastChunkEnd r
      then (None, r\<lparr>lastChunkEnd := endp (tacc t)\<rparr>, t)
      else
        let t1 = t\<lparr>txcc := (txcc t)\<lparr>start := lastChunkEnd r, true_start := True\<rparr>\<rparr>
        in case call_read_chunk env t1 of
             (Some e, t2) \<Rightarrow> (Some e, r, t2)
           | (None, t2) \<Rightarrow>
               if i = 0 then (Some AssertionError, r, t2)
               else order_chunk_loop env i (r, t2))"

definition order_chunk ::
  "'p collaborators \<Rightarrow> ChunkedDataReader \<times> 'p thread
   \<Rightarrow> error option \<times> ChunkedDataReader \<times> 'p thread" where
  "order_chunk env = order_chunk_loop env 2"

section \<open>The read loop\<close>

text \<open>
  One iteration of the loop of \<^verbatim>\<open>read_all\<close>, as the worker that got chunk \<open>i\<close>
  runs it: the parse phase (the first \<^verbatim>\<open>try\<close> block) and the commit phase (the
  \<^verbatim>\<open>ordered\<close> block). Exceptions raised in a \<^verbatim>\<open>try\<close> block end it and are
  captured by the exception manager.
\<close>

definition show_progress :: "'p collaborators \<Rightarrow> run \<times> 'p thread \<Rightarrow> error option \<times> run \<times> 'p thread" where
  \<comment> \<open>\<^verbatim>\<open>if (tShowAlways || (tShowProgress && wallclock() >= tShowWhen)) {...}\<close>\<close>
  "show_progress env st =
     (case st of (w, t) \<Rightarrow>
        (case (if tShowAlways t then (True, w)
               else if tShowProgress t
                    then (dle (tShowWhen t) (wallclock env (nclock w)),
                          w\<lparr>nclock := Suc (nclock w)\<rparr>)
                    else (False, w)) of
           (due, w1) \<Rightarrow>
             if due then
               (case emit_progress env (work_done_amount (rdr w1)) None w1 of
                  (Some e, w2) \<Rightarrow> (Some e, w2, t)
                | (None, w2) \<Rightarrow> (None, w2, t\<lparr>tShowAlways := True\<rparr>))
             else (None, w1, t)))"

definition parse_try :: "'p collaborators \<Rightarrow> size_t \<Rightarrow> run \<times> 'p thread \<Rightarrow> error option \<times> run \<times> 'p thread" where
  "parse_try env i st =
     (case show_progress env st of
        (Some e, w1, t1) \<Rightarrow> (Some e, w1, t1)
      | (None, w1, t1) \<Rightarrow>
          (case call_push_buffers env t1 of
             (Some e, t2) \<Rightarrow> (Some e, w1, t2)
           | (None, t2) \<Rightarrow>
               (case compute_chunk_boundaries env (rdr w1) i (tctx t2) of
                  Inl e \<Rightarrow> (Some e, w1, t2)
                | Inr c \<Rightarrow>
                    (case call_read_chunk env (t2\<lparr>txcc := c\<rparr>) of
                       (e, t3) \<Rightarrow> (e, w1, t3)))))"

definition parse_phase :: "'p collaborators \<Rightarrow> size_t \<Rightarrow> run \<times> 'p thread \<Rightarrow> run \<times> 'p thread" where
  "parse_phase env i st =
     (case parse_try env i st of
        (Some e, w1, t1) \<Rightarrow> (capture_exception e w1, t1)
      | (None, w1, t1) \<Rightarrow> (w1, t1))"

definition commit_try ::
  "'p collaborators \<Rightarrow> size_t \<Rightarrow> ChunkedDataReader \<times> 'p thread
   \<Rightarrow> (error option \<times> ChunkedDataReader \<times> 'p thread) option" where
  "commit_try env i st =
     (case st of (r, t) \<Rightarrow>
        (case order_chunk env (r, t\<lparr>tctx := (tctx t)\<lparr>row0 := nrows_written r\<rparr>\<rparr>) of
           (Some e, r1, t1) \<Rightarrow> Some (Some e, r1, t1)
         | (None, r1, t1) \<Rightarrow>
             (let nrows_new = nrows_written r1 + used_nrows (tctx t1)
              in case (if nrows_new > nrows_allocated r1 then
                         (if nrows_allocated r1 = nrows_max r1
                          then Some (None, nrows_allocated r1, r1,
                                     t1\<lparr>tctx := (tctx t1)\<lparr>used_nrows :=
                                            nrows_allocated r1 - nrows_written r1\<rparr>\<rparr>)
                          else case realloc_output_columns env i nrows_new r1 of
                                 None \<Rightarrow> None
                               | Some (e, r2) \<Rightarrow> Some (e, nrows_new, r2, t1))
                       else Some (None, nrows_new, r1, t1)) of
                   None \<Rightarrow> None
                 | Some (Some e, nrows_new1, r2, t2) \<Rightarrow> Some (Some e, r2, t2)
                 | Some (None, nrows_new1, r2, t2) \<Rightarrow>
                     (case call_orderBuffer env t2 of
                        (e, t3) \<Rightarrow> Some (e, r2\<lparr>nrows_written := nrows_new1\<rparr>, t3)))))"

definition commit_phase ::
  "'p collaborators \<Rightarrow> size_t \<Rightarrow> run \<times> 'p thread \<Rightarrow> (run \<times> 'p thread) option" where
  "commit_phase env i st =
     (case st of (w, t) \<Rightarrow>
        if exception_caught w then Some (w, t)
        else (case commit_try env i (rdr w, t) of
                None \<Rightarrow> None
              | Some (Some e, r1, t1) \<Rightarrow> Some (capture_exception e (w\<lparr>rdr := r1\<rparr>), t1)
              | Some (None, r1, t1) \<Rightarrow> Some (w\<lparr>rdr := r1\<rparr>, t1)))"

definition iteration ::
  "'p collaborators \<Rightarrow> size_t \<Rightarrow> run \<times> 'p thread \<Rightarrow> (run \<times> 'p thread) option" where
  "iteration env i st =
     (if exception_caught (fst st) then Some st
      else commit_phase env i (parse_phase env i st))"

fun chunk_loop ::
  "'p collaborators \<Rightarrow> size_t list \<Rightarrow> run \<times> 'p thread \<Rightarrow> (run \<times> 'p thread) option" where
  "chunk_loop env [] st = Some st"
| "chunk_loop env (i # is) st =
     (case iteration env i st of
        None \<Rightarrow> None
      | Some st1 \<Rightarrow> chunk_loop env is st1)"

text \<open>What a worker does before the loop (its flags and its context) and after it.\<close>

definition thread_init :: "'p collaborators \<Rightarrow> bool \<Rightarrow> run \<Rightarrow> run \<times> 'p thread" where
  "thread_init env master w =
     (let r = rdr w;
          showProgress = (report_progress (g r) \<and> master);
          showAlways = (showProgress \<and> 2 ^ 28 < sint (inputEnd r - inputStart r))
      in case (if showProgress
               then (dadd (wallclock env (nclock w)) (Fin (3 / 4)), w\<lparr>nclock := Suc (nclock w)\<rparr>)
               else (Fin 0, w)) of
           (showWhen, w1) \<Rightarrow>
             (w1, \<lparr>tctx = init_thread_context env,
                   txcc = new_ChunkCoordinates, tacc = new_ChunkCoordinates,
                   calls = [],
                   tMaster = master, tShowProgress = showProgress,
                   tShowAlways = showAlways, tShowWhen = showWhen\<rparr>))"

definition discard_buffers :: "run \<times> 'p thread \<Rightarrow> run \<times> 'p thread" where
  \<comment> \<open>\<^verbatim>\<open>if (oem.exception_caught()) { tctx->used_nrows = 0; }\<close>\<close>
  "discard_buffers st =
     (case st of (w, t) \<Rightarrow>
        if exception_caught w then (w, t\<lparr>tctx := (tctx t)\<lparr>used_nrows := 0\<rparr>\<rparr>) else (w, t))"

definition final_push :: "'p collaborators \<Rightarrow> run \<times> 'p thread \<Rightarrow> run \<times> 'p thread" where
  \<comment> \<open>\<^verbatim>\<open>if (tctx->used_nrows) { try { tctx->push_buffers(); } catch ... }\<close>\<close>
  "final_push env st =
     (case st of (w, t) \<Rightarrow>
        if used_nrows (tctx t) \<noteq> 0 then
          (case call_push_buffers env t of
             (Some e, t1) \<Rightarrow> (capture_exception e w, t1)
           | (None, t1) \<Rightarrow> (w, t1))
        else (w, t))"

definition final_status :: "run \<Rightarrow> int" where
  \<comment> \<open>\<^verbatim>\<open>1 + oem.exception_caught() + oem.is_keyboard_interrupt()\<close>\<close>
  "final_status w = 1 + of_bool (exception_caught w) + of_bool (is_keyboard_interrupt w)"

text \<open>
  The last progress report is outside every \<^verbatim>\<open>try\<close> block: an exception of
  \<^verbatim>\<open>g.progress\<close> there would leave the parallel region, which has no defined
  behaviour (\<open>None\<close>).
\<close>

definition final_progress :: "'p collaborators \<Rightarrow> run \<times> 'p thread \<Rightarrow> (run \<times> 'p thread) option" where
  "final_progress env st =
     (case st of (w, t) \<Rightarrow>
        if tShowAlways t then
          (case emit_progress env (work_done_amount (rdr w)) (Some (final_status w)) w of
             (Some e, w1) \<Rightarrow> None
           | (None, w1) \<Rightarrow> Some (w1, t))
        else Some (w, t))"

definition thread_exit :: "'p collaborators \<Rightarrow> run \<times> 'p thread \<Rightarrow> (run \<times> 'p thread) option" where
  "thread_exit env st = final_progress env (final_push env (discard_buffers st))"

text \<open>
  \<^verbatim>\<open>read_all\<close> in the run where the parallel region has one worker, the master
  (\<^verbatim>\<open>omp_get_num_threads()\<close> is 1): this worker gets every chunk, in order. With more
  workers the chunks are spread over them, each worker running \<open>iteration\<close> on its own
  \<open>thread\<close> state, the commit phases in the order of the chunks.
\<close>

definition read_all ::
  "'p collaborators \<Rightarrow> ChunkedDataReader \<Rightarrow> (error option \<times> run \<times> 'p thread) option" where
  "read_all env r =
     (case (if 1 \<noteq> nthreads r then determine_chunking_strategy (r\<lparr>nthreads := 1\<rparr>)
            else Some r) of
        None \<Rightarrow> None
      | Some r1 \<Rightarrow>
          (case chunk_loop env (map of_nat [0 ..< unat (chunkCount r1)])
                  (thread_init env True \<lparr>rdr = r1, oem = None, progress_log = [], nclock = 0\<rparr>) of
             None \<Rightarrow> None
           | Some st \<Rightarrow>
               (case thread_exit env st of
                  None \<Rightarrow> None
                | Some (w, t) \<Rightarrow>
                    (case oem w of
                       Some e \<Rightarrow> Some (Some e, w, t)
                     | None \<Rightarrow>
                         (case set_nrows env (nrows_written (rdr w)) (rdr w) of
                            (Some e, r2) \<Rightarrow> Some (Some e, w\<lparr>rdr := r2\<rparr>, t)
                          | (None, r2) \<Rightarrow>
                              if nrows_written r2 < nrows_max r2 \<and> lastChunkEnd r2 \<noteq> inputEnd r2
                              then Some (Some AssertionError, w\<lparr>rdr := r2\<rparr>, t)
                              else Some (None, w\<lparr>rdr := r2\<rparr>, t))))))"

section \<open>Example inputs\<close>

text \<open>
  A reader over 10 MiB of input with lines of 50 bytes on average, 16 threads, no rows
  allocated and no limit on the number of rows, before the planner has run.
\<close>

definition reader_10MiB :: ChunkedDataReader where
  "reader_10MiB =
     \<lparr>chunkSize = 0, chunkCount = 0, inputStart = 4096, inputEnd = 4096 + 10485760,
      lastChunkEnd = 4096, lineLength = Fin 50, nthreads = 16, nrows_written = 0,
      nrows_allocated = 0, nrows_max = - 1,
      g = \<lparr>sof = 4096, eof = 4096 + 10485760, g_nthreads = 16, max_nrows = - 1,
            report_progress = False, columns_nrows = 0\<rparr>\<rparr>"

text \<open>
  The host reader of a small file: 100 bytes, 4 threads requested, room for 10 rows and
  no limit on the number of rows, progress reports requested.
\<close>

definition greader_small :: GenericReader where
  "greader_small =
     \<lparr>sof = 4096, eof = 4196, g_nthreads = 4, max_nrows = - 1,
      report_progress = True, columns_nrows = 10\<rparr>"

text \<open>
  Collaborators over a context without buffers. \<open>exact_parser\<close> reads exactly the range
  it is given and finds 10 rows in it; \<open>stuck_parser\<close> never moves the actual
  coordinates. Nothing else raises, and the clock stands still.
\<close>

definition exact_parser :: "unit collaborators" where
  "exact_parser =
     \<lparr>read_chunk = (\<lambda>xcc acc ctx. (None, xcc, ctx\<lparr>used_nrows := 10\<rparr>)),
      push_buffers = (\<lambda>ctx. (None, ctx)),
      orderBuffer = (\<lambda>ctx. (None, ctx)),
      init_thread_context = \<lparr>row0 = 0, used_nrows = 0, buffers = ()\<rparr>,
      adjust_chunk_coordinates = (\<lambda>c ctx. c),
      set_nrows_raises = (\<lambda>n. None),
      progress_raises = (\<lambda>k. None),
      wallclock = (\<lambda>k. Fin 0)\<rparr>"

definition stuck_parser :: "unit collaborators" where
  "stuck_parser = exact_parser\<lparr>read_chunk := (\<lambda>xcc acc ctx. (None, acc, ctx))\<rparr>"

text \<open>
  The reader of 100 bytes in two chunks of 50 bytes, after the commit of the first chunk,
  which ended at offset 4150 with 5 rows; and the worker that has parsed the second chunk
  from offset 4148 where it guessed a line to start.
\<close>

definition reader_two_chunks :: ChunkedDataReader where
  "reader_two_chunks =
     \<lparr>chunkSize = 50, chunkCount = 2, inputStart = 4096, inputEnd = 4196,
      lastChunkEnd = 4150, lineLength = Fin 10, nthreads = 2, nrows_written = 5,
      nrows_allocated = 10, nrows_max = - 1, g = greader_small\<rparr>"

definition worker_second :: "unit thread" where
  "worker_second =
     \<lparr>tctx = \<lparr>row0 = 0, used_nrows = 5, buffers = ()\<rparr>,
      txcc = \<lparr>start = 4146, endp = 4196, true_start = False, true_end = True\<rparr>,
      tacc = \<lparr>start = 4148, endp = 4196, true_start = False, true_end = True\<rparr>,
      calls = [],
      tMaster = False, tShowProgress = False, tShowAlways = False, tShowWhen = Fin 0\<rparr>"

text \<open>
  The reader of 150 bytes in three chunks of 50 bytes, after the commit of the first
  chunk, whose single line ended at offset 4200, beyond the whole second chunk; and the
  worker of the second chunk, which found nothing left to read in its range.
\<close>

definition reader_long_line :: ChunkedDataReader where
  "reader_long_line =
     \<lparr>chunkSize = 50, chunkCount = 3, inputStart = 4096, inputEnd = 4246,
      lastChunkEnd = 4200, lineLength = Fin 10, nthreads = 3, nrows_written = 1,
      nrows_allocated = 10, nrows_max = - 1,
      g = greader_small\<lparr>eof := 4246\<rparr>\<rparr>"

definition worker_covered :: "unit thread" where
  "worker_covered =
     \<lparr>tctx = \<lparr>row0 = 0, used_nrows = 0, buffers = ()\<rparr>,
      txcc = \<lparr>start = 4146, endp = 4196, true_start = False, true_end = False\<rparr>,
      tacc = \<lparr>start = 4200, endp = 4200, true_start = False, true_end = False\<rparr>,
      calls = [],
      tMaster = False, tShowProgress = False, tShowAlways = False, tShowWhen = Fin 0\<rparr>"

text \<open>The state shared by the workers when the loop starts.\<close>

definition run_of :: "ChunkedDataReader \<Rightarrow> run" where
  "run_of r = \<lparr>rdr = r, oem = None, progress_log = [], nclock = 0\<rparr>"

text \<open>
  The reader that the constructor builds for \<open>greader_small\<close> and lines of 10 bytes:
  one chunk, one thread.
\<close>

definition reader_small :: ChunkedDataReader where
  "reader_small =
     \<lparr>chunkSize = 100, chunkCount = 1, inputStart = 4096, inputEnd = 4196,
      lastChunkEnd = 4096, lineLength = Fin 10, nthreads = 1, nrows_written = 0,
      nrows_allocated = 10, nrows_max = - 1, g = greader_small\<rparr>"

text \<open>
  A file of 10000 bytes holding 1000 lines, read with a limit of 500 rows into a table
  that has 100 rows allocated: the host reader, the reader the constructor builds for it,
  and a parser that finds the 1000 rows in the range it is given.
\<close>

definition greader_capped :: GenericReader where
  "greader_capped =
     \<lparr>sof = 4096, eof = 14096, g_nthreads = 1, max_nrows = 500,
      report_progress = False, columns_nrows = 100\<rparr>"

definition reader_capped :: ChunkedDataReader where
  "reader_capped =
     \<lparr>chunkSize = 10000, chunkCount = 1, inputStart = 4096, inputEnd = 14096,
      lastChunkEnd = 4096, lineLength = Fin 10, nthreads = 1, nrows_written = 0,
      nrows_allocated = 100, nrows_max = 500, g = greader_capped\<rparr>"

definition rows1000_parser :: "unit collaborators" where
  "rows1000_parser =
     exact_parser\<lparr>read_chunk := (\<lambda>xcc acc ctx. (None, xcc, ctx\<lparr>used_nrows := 1000\<rparr>))\<rparr>"

text \<open>A run in which a parse error has been captured.\<close>

definition run_failed :: run where
  "run_failed = \<lparr>rdr = reader_two_chunks, oem = Some ParseError, progress_log = [], nclock = 0\<rparr>"

text \<open>
  Collaborators whose clock advances by one second at each reading, and the state a
  master worker has reached with them at the end of the loop over \<open>reader_small\<close>.
\<close>

definition slow_clock :: "unit collaborators" where
  "slow_clock = exact_parser\<lparr>wallclock := (\<lambda>k. Fin (of_nat k))\<rparr>"

definition run_after_slow :: run where
  "run_after_slow =
     \<lparr>rdr = reader_small\<lparr>lastChunkEnd := 4196, nrows_written := 10\<rparr>,
      oem = None, progress_log = [(Fin 0, None)], nclock = 2\<rparr>"

definition worker_after_slow :: "unit thread" where
  "worker_after_slow =
     \<lparr>tctx = \<lparr>row0 = 0, used_nrows = 10, buffers = ()\<rparr>,
      txcc = \<lparr>start = 4096, endp = 4196, true_start = True, true_end = True\<rparr>,
      tacc = \<lparr>start = 4096, endp = 4196, true_start = True, true_end = True\<rparr>,
      calls = [PushBuffers,
               ReadChunk \<lparr>start = 4096, endp = 4196, true_start = True, true_end = True\<rparr>,
               OrderBuffer],
      tMaster = True, tShowProgress = True, tShowAlways = True,
      tShowWhen = Fin (3 / 4)\<rparr>"

text \<open>
  A lower bound on a double, for the proofs about conversions out of range: the double
  is plus infinity, or finite and at least \<open>b\<close>.
\<close>

definition at_least :: "real \<Rightarrow> double \<Rightarrow> bool" where
  "at_least b d = (case d of Fin q \<Rightarrow> b \<le> q | PInf \<Rightarrow> True | _ \<Rightarrow> False)"

section \<open>Facts about the machine types\<close>

lemma unat_scast_nonneg:
  fixes n :: cint
  assumes "0 \<le> sint n"
  shows "unat (scast n :: size_t) = nat (sint n)"
proof -
  have up: "is_up (scast :: cint \<Rightarrow> size_t)" by (simp add: is_up)
  have "sint n < 2 ^ 31" using sint_lt [of n] by simp
  also have "(2::int) ^ 31 < 2 ^ 64" by (rule power_strict_increasing) simp_all
  finally have lt: "sint n < 2 ^ 64" .
  have "uint (scast n :: size_t) = take_bit 64 (sint (scast n :: size_t))"
    using uint_sint [of "scast n :: size_t"] by simp
  also have "\<dots> = take_bit 64 (sint n)" using sint_up_scast [OF up] by simp
  also have "\<dots> = sint n" using assms lt by (simp add: take_bit_int_eq_self)
  finally show ?thesis by (simp add: unat_eq_nat_uint del: nat_uint_eq)
qed

lemma unat_max: "unat (max a b) = max (unat a) (unat b)" for a b :: "'a::len word"
  by (simp add: max_def word_le_nat_alt)

lemma ceil_div_nat:
  fixes c T :: nat
  assumes "0 < c" "0 < T"
  shows "1 + (c - 1) div T = nat \<lceil>real c / real T\<rceil>"
proof -
  obtain q r where qr: "c - 1 = q * T + r" "r < T" "q = (c - 1) div T"
    using assms by (metis div_mult_mod_eq mod_less_divisor)
  have c: "real c = real q * real T + real r + 1" using qr assms
    by (metis Suc_pred' add.commute of_nat_Suc of_nat_add of_nat_mult)
  have "real q < real c / real T" using assms c by (simp add: field_simps)
  moreover have "real c / real T \<le> real q + 1" using assms c qr by (simp add: field_simps)
  ultimately have "\<lceil>real c / real T\<rceil> = int q + 1"
    by (intro ceiling_unique) simp_all
  then show ?thesis using qr by simp
qed

section \<open>Rounding to binary64\<close>

text \<open>
  The exponent \<open>ilog2\<close> is the binary logarithm rounded down; rounding is monotone, and
  above 1 its relative error is at most \<open>2\<^sup>-\<^sup>5\<^sup>3\<close>.
\<close>

lemma pow2_pos [simp]: "0 < pow2 e"
  by (simp add: pow2_def)

lemma pow2_add: "pow2 (a + b) = pow2 a * pow2 b"
  by (simp add: pow2_def power_int_add)

lemma pow2_mono: "a \<le> b \<Longrightarrow> pow2 a \<le> pow2 b"
  by (simp add: pow2_def power_int_increasing)

lemma pow2_strict_mono: "a < b \<Longrightarrow> pow2 a < pow2 b"
  by (simp add: pow2_def power_int_strict_increasing)

lemma pow2_nat: "pow2 (int n) = 2 ^ n"
  by (simp add: pow2_def)

lemma pow2_neg: "pow2 (- int n) = 1 / 2 ^ n"
  by (simp add: pow2_def power_int_minus_divide)

lemma ilog2_bounds:
  assumes "0 < q"
  shows "pow2 (ilog2 q) \<le> q \<and> q < pow2 (ilog2 q + 1)"
proof (cases "1 \<le> q")
  case True
  define n where "n = \<lfloor>q\<rfloor>"
  have npos: "0 < n" using True by (simp add: n_def)
  from bitlen_bounds [OF npos]
  have b: "2 ^ nat (bitlen n - 1) \<le> n" "n < 2 ^ nat (bitlen n)" by simp_all
  have bl: "1 \<le> bitlen n" using npos by (simp add: bitlen_alt_def)
  have k: "ilog2 q = bitlen n - 1" using True by (simp add: ilog2_def n_def)
  have "pow2 (bitlen n - 1) = 2 ^ nat (bitlen n - 1)"
    using bl pow2_nat [of "nat (bitlen n - 1)"] by simp
  also have "\<dots> = of_int (2 ^ nat (bitlen n - 1))" by simp
  also have "\<dots> \<le> of_int n" using b(1) by (simp only: of_int_le_iff)
  also have "\<dots> \<le> q" by (simp add: n_def)
  finally have lo: "pow2 (ilog2 q) \<le> q" by (simp add: k)
  have "q < of_int n + 1" by (simp add: n_def)
  also have "\<dots> = of_int (n + 1)" by simp
  also have "\<dots> \<le> of_int (2 ^ nat (bitlen n))" using b(2) by (simp only: of_int_le_iff)
  also have "\<dots> = pow2 (bitlen n)" using bl pow2_nat [of "nat (bitlen n)"] by simp
  finally have "q < pow2 (ilog2 q + 1)" by (simp add: k)
  with lo show ?thesis by simp
next
  case False
  then have q1: "q < 1" by simp
  define x where "x = 1 / q"
  define m where "m = \<lceil>x\<rceil> - 1"
  have x1: "1 < x" using assms q1 by (simp add: x_def)
  have mpos: "0 < m" using x1 by (simp add: m_def less_ceiling_iff)
  have mx: "of_int m < x" "x \<le> of_int m + 1" by (simp_all add: m_def less_ceiling_iff) linarith
  from bitlen_bounds [OF mpos]
  have b: "2 ^ nat (bitlen m - 1) \<le> m" "m < 2 ^ nat (bitlen m)" by simp_all
  have bl: "1 \<le> bitlen m" using mpos by (simp add: bitlen_alt_def)
  have k: "ilog2 q = - bitlen m" using False by (simp add: ilog2_def m_def x_def)
  have "x \<le> of_int (m + 1)" using mx by simp
  also have "\<dots> \<le> of_int (2 ^ nat (bitlen m))" using b(2) by (simp only: of_int_le_iff)
  also have "\<dots> = (2::real) ^ nat (bitlen m)" by simp
  finally have xu: "x \<le> 2 ^ nat (bitlen m)" .
  have "(2::real) ^ nat (bitlen m - 1) = of_int (2 ^ nat (bitlen m - 1))" by simp
  also have "\<dots> \<le> of_int m" using b(1) by (simp only: of_int_le_iff)
  also have "\<dots> < x" by (rule mx)
  finally have xl: "2 ^ nat (bitlen m - 1) < x" .
  have p1: "pow2 (- bitlen m) = 1 / 2 ^ nat (bitlen m)"
    using bl pow2_neg [of "nat (bitlen m)"] by simp
  have p2: "pow2 (- bitlen m + 1) = 1 / 2 ^ nat (bitlen m - 1)"
    using bl pow2_neg [of "nat (bitlen m - 1)"] by (simp add: algebra_simps)
  have qx: "1 / x = q" by (simp add: x_def)
  have "1 / 2 ^ nat (bitlen m) \<le> 1 / x" using xu x1 by (simp add: frac_le)
  then have lo: "pow2 (ilog2 q) \<le> q" unfolding k p1 qx .
  have "1 / x < 1 / 2 ^ nat (bitlen m - 1)" using xl by (simp add: frac_less2)
  then have "q < pow2 (ilog2 q + 1)" unfolding k p2 qx .
  with lo show ?thesis by simp
qed

lemma pow2_nonneg [simp]: "0 \<le> pow2 e"
  using pow2_pos [of e] by linarith

lemma pow2_neq0 [simp]: "pow2 e \<noteq> 0"
  using pow2_pos [of e] by linarith

lemma pow2_shift: "pow2 (k - 52) * 2 ^ 52 = pow2 k" "pow2 (k - 52) * 2 ^ 53 = pow2 (k + 1)"
proof -
  have "pow2 ((k - 52) + 52) = pow2 (k - 52) * pow2 52" by (rule pow2_add)
  then show "pow2 (k - 52) * 2 ^ 52 = pow2 k" by (simp add: pow2_def)
  have "pow2 ((k - 52) + 53) = pow2 (k - 52) * pow2 53" by (rule pow2_add)
  moreover have "(k - 52) + 53 = k + 1" by simp
  ultimately show "pow2 (k - 52) * 2 ^ 53 = pow2 (k + 1)" by (simp add: pow2_def)
qed

lemma ilog2_unique:
  assumes "0 < q" "pow2 k \<le> q" "q < pow2 (k + 1)"
  shows "ilog2 q = k"
proof -
  from ilog2_bounds [OF assms(1)]
  have b: "pow2 (ilog2 q) \<le> q" "q < pow2 (ilog2 q + 1)" by simp_all
  have "pow2 k < pow2 (ilog2 q + 1)" using assms(2) b(2) by simp
  then have "k < ilog2 q + 1" using pow2_mono [of "ilog2 q + 1" k] by (cases "k < ilog2 q + 1") auto
  moreover have "pow2 (ilog2 q) < pow2 (k + 1)" using assms(3) b(1) by simp
  then have "ilog2 q < k + 1" using pow2_mono [of "k + 1" "ilog2 q"] by (cases "ilog2 q < k + 1") auto
  ultimately show ?thesis by simp
qed

lemma ilog2_mono:
  assumes "0 < x" "x \<le> y"
  shows "ilog2 x \<le> ilog2 y"
proof -
  from ilog2_bounds [OF assms(1)] have "pow2 (ilog2 x) \<le> x" by simp
  moreover from ilog2_bounds [of y] assms have "y < pow2 (ilog2 y + 1)" by simp
  ultimately have "pow2 (ilog2 x) < pow2 (ilog2 y + 1)" using assms(2) by simp
  then have "ilog2 x < ilog2 y + 1"
    using pow2_mono [of "ilog2 y + 1" "ilog2 x"] by (cases "ilog2 x < ilog2 y + 1") auto
  then show ?thesis by simp
qed

lemma ilog2_nonneg: "1 \<le> x \<Longrightarrow> 0 \<le> ilog2 x"
  by (simp add: ilog2_def bitlen_alt_def)

lemma round_even_bounds: "x - 1 / 2 \<le> of_int (round_even x) \<and> of_int (round_even x) \<le> x + 1 / 2"
proof -
  define f where "f = \<lfloor>x\<rfloor>"
  have "of_int f \<le> x" "x < of_int f + 1" unfolding f_def by linarith+
  then show ?thesis unfolding round_even_def Let_def f_def [symmetric] by auto
qed

lemma round_even_of_int [simp]: "round_even (of_int n) = n"
  by (simp add: round_even_def)

lemma round_even_mono:
  assumes "x \<le> y"
  shows "round_even x \<le> round_even y"
proof (rule ccontr)
  assume "\<not> round_even x \<le> round_even y"
  then have "round_even y + 1 \<le> round_even x" by simp
  then have "(of_int (round_even y) :: real) + 1 \<le> of_int (round_even x)"
    by (metis of_int_1 of_int_add of_int_le_iff)
  with round_even_bounds [of x] round_even_bounds [of y] assms
  have "x = y" by linarith
  with \<open>\<not> round_even x \<le> round_even y\<close> show False by simp
qed

lemma round_to_53_normal:
  assumes "1 \<le> x"
  shows "round_to_53 x = of_int (round_even (x / pow2 (ilog2 x - 52))) * pow2 (ilog2 x - 52)"
  using assms ilog2_nonneg [OF assms] by (simp add: round_to_53_def Let_def max_def)

lemma scaled_range:
  assumes "0 < x"
  shows "2 ^ 52 \<le> x / pow2 (ilog2 x - 52) \<and> x / pow2 (ilog2 x - 52) < 2 ^ 53"
proof -
  from ilog2_bounds [OF assms]
  have b: "pow2 (ilog2 x) \<le> x" "x < pow2 (ilog2 x + 1)" by simp_all
  show ?thesis using b unfolding pow2_shift [of "ilog2 x", symmetric] by (simp add: field_simps)
qed

lemma round_to_53_range:
  assumes "1 \<le> x"
  shows "pow2 (ilog2 x) \<le> round_to_53 x \<and> round_to_53 x \<le> pow2 (ilog2 x + 1)"
proof -
  let ?u = "pow2 (ilog2 x - 52)"
  let ?m = "round_even (x / ?u)"
  from scaled_range [of x] assms have s: "2 ^ 52 \<le> x / ?u" "x / ?u < 2 ^ 53" by simp_all
  have "round_even (of_int (2 ^ 52)) \<le> ?m" by (rule round_even_mono) (use s in simp)
  then have lo: "(2 ^ 52 :: real) \<le> of_int ?m" by (simp only: round_even_of_int) (metis of_int_le_iff of_int_numeral of_int_power)
  have "?m \<le> round_even (of_int (2 ^ 53))" by (rule round_even_mono) (use s in simp)
  then have hi: "of_int ?m \<le> (2 ^ 53 :: real)" by (simp only: round_even_of_int) (metis of_int_le_iff of_int_numeral of_int_power)
  show ?thesis unfolding round_to_53_normal [OF assms] pow2_shift [of "ilog2 x", symmetric]
    using lo hi by (simp add: mult_right_mono mult.commute [of "pow2 (ilog2 x - 52)"])
qed

lemma round_to_53_mono:
  assumes "1 \<le> x" "x \<le> y"
  shows "round_to_53 x \<le> round_to_53 y"
proof -
  have y: "1 \<le> y" using assms by simp
  have k: "ilog2 x \<le> ilog2 y" using assms by (intro ilog2_mono) simp_all
  show ?thesis
  proof (cases "ilog2 x = ilog2 y")
    case True
    let ?u = "pow2 (ilog2 y - 52)"
    have "x / ?u \<le> y / ?u" using assms by (intro divide_right_mono) simp_all
    then have "round_even (x / ?u) \<le> round_even (y / ?u)" by (rule round_even_mono)
    then have "(of_int (round_even (x / ?u)) :: real) \<le> of_int (round_even (y / ?u))" by simp
    then show ?thesis
      unfolding round_to_53_normal [OF assms(1)] round_to_53_normal [OF y] True
      by (simp add: mult_right_mono)
  next
    case False
    with k have "ilog2 x + 1 \<le> ilog2 y" by simp
    then have "pow2 (ilog2 x + 1) \<le> pow2 (ilog2 y)" by (rule pow2_mono)
    with round_to_53_range [OF assms(1)] round_to_53_range [OF y] show ?thesis by linarith
  qed
qed

lemma round_to_53_lower:
  assumes "1 \<le> x"
  shows "x * (1 - 1 / 2 ^ 53) \<le> round_to_53 x"
proof -
  let ?u = "pow2 (ilog2 x - 52)"
  from scaled_range [of x] assms have s: "2 ^ 52 \<le> x / ?u" by simp
  then have u: "?u * 2 ^ 52 \<le> x" by (simp add: field_simps)
  from round_even_bounds [of "x / ?u"]
  have "x / ?u - 1 / 2 \<le> of_int (round_even (x / ?u))" by simp
  then have "(x / ?u - 1 / 2) * ?u \<le> of_int (round_even (x / ?u)) * ?u"
    by (simp add: mult_right_mono)
  moreover have "(x / ?u - 1 / 2) * ?u = x - ?u / 2" by (simp add: left_diff_distrib)
  ultimately have "x - ?u / 2 \<le> round_to_53 x"
    unfolding round_to_53_normal [OF assms] by simp
  moreover have "?u / 2 \<le> x / 2 ^ 53" using u by (simp add: field_simps)
  ultimately show ?thesis by (simp add: field_simps)
qed

lemma round_to_53_upper:
  assumes "1 \<le> x"
  shows "round_to_53 x \<le> x * (1 + 1 / 2 ^ 53)"
proof -
  let ?u = "pow2 (ilog2 x - 52)"
  from scaled_range [of x] assms have s: "2 ^ 52 \<le> x / ?u" by simp
  then have u: "?u * 2 ^ 52 \<le> x" by (simp add: field_simps)
  from round_even_bounds [of "x / ?u"]
  have "of_int (round_even (x / ?u)) \<le> x / ?u + 1 / 2" by simp
  then have "of_int (round_even (x / ?u)) * ?u \<le> (x / ?u + 1 / 2) * ?u"
    by (simp add: mult_right_mono)
  moreover have "(x / ?u + 1 / 2) * ?u = x + ?u / 2" by (simp add: distrib_right)
  ultimately have "round_to_53 x \<le> x + ?u / 2"
    unfolding round_to_53_normal [OF assms] by simp
  moreover have "?u / 2 \<le> x / 2 ^ 53" using u by (simp add: field_simps)
  ultimately show ?thesis by (simp add: field_simps)
qed

lemma round_to_53_ge1: "1 \<le> x \<Longrightarrow> 1 \<le> round_to_53 x"
proof -
  assume x: "1 \<le> x"
  have "pow2 0 \<le> pow2 (ilog2 x)" using ilog2_nonneg [OF x] by (rule pow2_mono)
  with round_to_53_range [OF x] show ?thesis by (simp add: pow2_def)
qed

lemma round_binary64_ge1:
  assumes "1 \<le> x"
  shows "round_binary64 x = (if pow2 1024 \<le> round_to_53 x then PInf else Fin (round_to_53 x))"
proof -
  have "0 < pow2 1024" by simp
  with round_to_53_ge1 [OF assms] have "\<not> round_to_53 x \<le> - pow2 1024" by linarith
  with assms show ?thesis by (simp add: round_binary64_def Let_def)
qed

lemma at_least_round:
  assumes "1 \<le> b" "b \<le> x"
  shows "at_least (round_to_53 b) (round_binary64 x)"
proof -
  have x: "1 \<le> x" using assms by simp
  from round_to_53_mono [OF assms] show ?thesis
    by (simp add: round_binary64_ge1 [OF x] at_least_def)
qed

lemma at_least_weaken: "at_least b d \<Longrightarrow> a \<le> b \<Longrightarrow> at_least a d"
  by (cases d) (simp_all add: at_least_def)

lemma at_least_dmul:
  assumes "at_least a d" "1 \<le> a" "1 \<le> y"
  shows "at_least (round_to_53 (a * y)) (dmul d (Fin y))"
proof (cases d)
  case (Fin q)
  with assms have q: "a \<le> q" by (simp add: at_least_def)
  have "1 * 1 \<le> a * y" using assms by (intro mult_mono) simp_all
  moreover have "a * y \<le> q * y" using q assms by (simp add: mult_right_mono)
  ultimately show ?thesis using Fin by (simp add: dmul_def at_least_round)
next
  case PInf
  with assms show ?thesis by (simp add: dmul_def dinf_def dsign_def at_least_def)
qed (use assms in \<open>simp_all add: at_least_def\<close>)

lemma at_least_ddiv:
  assumes "at_least a d" "1 \<le> y" "y \<le> a"
  shows "at_least (round_to_53 (a / y)) (ddiv d (Fin y))"
proof (cases d)
  case (Fin q)
  with assms have q: "a \<le> q" by (simp add: at_least_def)
  have "1 \<le> a / y" using assms by simp
  moreover have "a / y \<le> q / y" using q assms by (simp add: divide_right_mono)
  ultimately show ?thesis using Fin assms by (simp add: ddiv_def at_least_round)
next
  case PInf
  with assms show ?thesis by (simp add: ddiv_def dinf_def dsign_def at_least_def)
qed (use assms in \<open>simp_all add: at_least_def\<close>)

lemma size_of_double_too_big: "at_least (2 ^ 64) d \<Longrightarrow> size_of_double d = None"
proof (cases d)
  case (Fin q)
  assume "at_least (2 ^ 64) d"
  with Fin have q: "2 ^ 64 \<le> q" by (simp add: at_least_def)
  then have "(2 ^ 64 :: int) \<le> \<lfloor>q\<rfloor>" by (simp add: le_floor_iff)
  with q Fin show ?thesis by (simp add: size_of_double_def Let_def)
qed (simp_all add: at_least_def size_of_double_def)

lemma double_of_size_pos:
  assumes "w \<noteq> 0"
  shows "double_of_size w = Fin (round_to_53 (real (unat w))) \<and> 1 \<le> round_to_53 (real (unat w))"
proof -
  let ?x = "real (unat w)"
  have "0 < unat w" using assms by (simp add: unat_gt_0)
  then have "1 \<le> unat w" by simp
  then have x: "1 \<le> ?x" by (metis of_nat_1 of_nat_le_iff)
  have "unat w < 2 ^ 64" using unsigned_less [of w] by simp
  then have xu: "?x < 2 ^ 64" by (metis of_nat_less_iff of_nat_numeral of_nat_power)
  from ilog2_bounds [of ?x] x have "pow2 (ilog2 ?x) \<le> ?x" by simp
  with xu have "pow2 (ilog2 ?x) < pow2 64" by (simp add: pow2_def)
  then have "ilog2 ?x < 64" using pow2_mono [of 64 "ilog2 ?x"] by (cases "ilog2 ?x < 64") auto
  then have "pow2 (ilog2 ?x + 1) \<le> pow2 64" by (intro pow2_mono) simp
  also have "\<dots> < pow2 1024" by (intro pow2_strict_mono) simp
  finally have "round_to_53 ?x < pow2 1024" using round_to_53_range [OF x] by linarith
  then have "round_binary64 ?x = Fin (round_to_53 ?x)"
    unfolding round_binary64_ge1 [OF x] by (simp del: of_nat_unat)
  with round_to_53_ge1 [OF x] show ?thesis
    unfolding double_of_size_def by (simp del: of_nat_unat)
qed

text \<open>
  The value of \<^verbatim>\<open>1.2 * n * c / j\<close> in double arithmetic, for arguments that are
  themselves roundings of numbers from 1 to \<open>2\<^sup>6\<^sup>4\<close> with \<open>j \<le> c\<close>: it is finite, and within
  a relative error of \<open>2\<^sup>-\<^sup>5\<^sup>0\<close> of the exact value.
\<close>

lemma round_to_53_between:
  assumes "1 \<le> x" "a \<le> x" "x \<le> b"
  shows "a * (1 - 1 / 2 ^ 53) \<le> round_to_53 x \<and> round_to_53 x \<le> b * (1 + 1 / 2 ^ 53)"
proof -
  have "a * (1 - 1 / 2 ^ 53) \<le> x * (1 - 1 / 2 ^ 53)"
    using assms(2) by (intro mult_right_mono) simp_all
  moreover have "x * (1 + 1 / 2 ^ 53) \<le> b * (1 + 1 / 2 ^ 53)"
    using assms(3) by (intro mult_right_mono) simp_all
  ultimately show ?thesis
    using round_to_53_lower [OF assms(1)] round_to_53_upper [OF assms(1)] by linarith
qed

lemma round_binary64_finite:
  assumes "1 \<le> x" "round_to_53 x < 2 ^ 1024"
  shows "round_binary64 x = Fin (round_to_53 x)"
  using assms by (simp add: round_binary64_ge1 pow2_def)


lemma double_1_2_val: "double_1_2 = Fin (5404319552844595 / 4503599627370496)"
  by (simp add: double_1_2_def round_binary64_def round_to_53_def ilog2_def round_even_def
      pow2_def Let_def compute_bitlen)

lemma exp_chain_accuracy:
  fixes n c j :: real
  assumes n: "1 \<le> n" "n < 2 ^ 64" and c: "c < 2 ^ 64" and j: "1 \<le> j" "j \<le> c"
  shows "\<exists>f. ddiv (dmul (dmul double_1_2 (Fin (round_to_53 n))) (Fin (round_to_53 c)))
                  (Fin (round_to_53 j)) = Fin f \<and>
             6 / 5 * n * c / j * (1 - 1 / 2 ^ 50) \<le> f \<and>
             f \<le> 6 / 5 * n * c / j * (1 + 1 / 2 ^ 50)"
proof -
  define el :: real where "el = 1 - 1 / 2 ^ 53"
  define eu :: real where "eu = 1 + 1 / 2 ^ 53"
  define k :: real where "k = 5404319552844595 / 4503599627370496"
  have el: "0 < el" "el \<le> 1" by (simp_all add: el_def)
  have eu: "1 \<le> eu" "eu \<le> 2" by (simp_all add: eu_def)
  have k: "1 \<le> k" "k \<le> 2" by (simp_all add: k_def)
  have num_lo: "6 / 5 * (1 - 1 / 2 ^ 50) \<le> k * (el * el * el * el * el) / eu"
    by (simp add: k_def el_def eu_def)
  have num_hi: "k * (eu * eu * eu * eu * eu) / el \<le> 6 / 5 * (1 + 1 / 2 ^ 50)"
    by (simp add: k_def el_def eu_def)
  have num_1: "eu \<le> k * (el * el * el * el)" by (simp add: k_def el_def eu_def)
  have c1: "1 \<le> c" using j by simp
  let ?N = "round_to_53 n" and ?C = "round_to_53 c" and ?I = "round_to_53 j"
  have N: "n * el \<le> ?N" "?N \<le> n * eu" "1 \<le> ?N"
    using round_to_53_between [OF n(1), of n n, folded el_def eu_def] round_to_53_ge1 [OF n(1)]
    by simp_all
  have C: "c * el \<le> ?C" "?C \<le> c * eu" "1 \<le> ?C"
    using round_to_53_between [OF c1, of c c, folded el_def eu_def] round_to_53_ge1 [OF c1]
    by simp_all
  have I: "j * el \<le> ?I" "?I \<le> j * eu" "1 \<le> ?I"
    using round_to_53_between [OF j(1), of j j, folded el_def eu_def] round_to_53_ge1 [OF j(1)]
    by simp_all
  \<comment> \<open>the first product\<close>
  let ?P1 = "k * ?N"
  have P1: "k * (n * el) \<le> ?P1" "?P1 \<le> k * (n * eu)" "1 \<le> ?P1"
  proof -
    show "k * (n * el) \<le> ?P1" using N(1) k by (intro mult_left_mono) simp_all
    show "?P1 \<le> k * (n * eu)" using N(2) k by (intro mult_left_mono) simp_all
    have "1 * 1 \<le> k * ?N" using k N(3) by (intro mult_mono) simp_all
    then show "1 \<le> ?P1" by simp
  qed
  let ?f1 = "round_to_53 ?P1"
  have f1: "k * (n * el) * el \<le> ?f1" "?f1 \<le> k * (n * eu) * eu" "1 \<le> ?f1"
    using round_to_53_between [OF P1(3) P1(1) P1(2), folded el_def eu_def] round_to_53_ge1 [OF P1(3)]
    by simp_all
  have "k * (n * eu) * eu \<le> 2 * (2 ^ 64 * 2) * 2"
    using k eu n by (intro mult_mono) simp_all
  with f1(2) have "?f1 < 2 ^ 1024" by simp
  then have d1: "dmul double_1_2 (Fin ?N) = Fin ?f1"
    using P1(3) by (simp add: double_1_2_val dmul_def k_def [symmetric] round_binary64_finite)
  \<comment> \<open>the second product\<close>
  define lo1 where "lo1 = k * (n * el) * el"
  define hi1 where "hi1 = k * (n * eu) * eu"
  have lo1: "0 \<le> lo1" using k n el by (simp add: lo1_def)
  have hi1: "hi1 \<le> 2 ^ 67"
  proof -
    have "k * (n * eu) * eu \<le> 2 * (2 ^ 64 * 2) * 2" using k eu n by (intro mult_mono) simp_all
    then show ?thesis by (simp add: hi1_def)
  qed
  note f1' = f1 [folded lo1_def hi1_def]
  let ?P2 = "?f1 * ?C"
  have P2: "lo1 * (c * el) \<le> ?P2" "?P2 \<le> hi1 * (c * eu)" "1 \<le> ?P2"
  proof -
    show "lo1 * (c * el) \<le> ?P2" using f1'(1) C(1) lo1 c1 el by (intro mult_mono) simp_all
    show "?P2 \<le> hi1 * (c * eu)" using f1'(2) f1'(3) C(2) C(3) by (intro mult_mono) simp_all
    have "1 * 1 \<le> ?f1 * ?C" using f1(3) C(3) by (intro mult_mono) simp_all
    then show "1 \<le> ?P2" by simp
  qed
  let ?f2 = "round_to_53 ?P2"
  have f2: "lo1 * (c * el) * el \<le> ?f2" "?f2 \<le> hi1 * (c * eu) * eu" "1 \<le> ?f2"
    using round_to_53_between [OF P2(3) P2(1) P2(2), folded el_def eu_def] round_to_53_ge1 [OF P2(3)]
    by simp_all
  define lo2 where "lo2 = lo1 * (c * el) * el"
  define hi2 where "hi2 = hi1 * (c * eu) * eu"
  note f2' = f2 [folded lo2_def hi2_def]
  have hi1pos: "0 \<le> hi1" using f1'(2) f1'(3) by linarith
  have hi2: "hi2 \<le> 2 ^ 133" "0 \<le> hi2"
  proof -
    have "hi1 * (c * eu) * eu \<le> 2 ^ 67 * (2 ^ 64 * 2) * 2"
      using hi1 hi1pos eu c c1 by (intro mult_mono) simp_all
    then show "hi2 \<le> 2 ^ 133" by (simp add: hi2_def)
    show "0 \<le> hi2" using f2'(2) f2'(3) by linarith
  qed
  from f2'(2) hi2(1) have "?f2 < 2 ^ 1024" by simp
  then have d2: "dmul (Fin ?f1) (Fin ?C) = Fin ?f2"
    using P2(3) by (simp add: dmul_def round_binary64_finite)
  have lo2: "0 \<le> lo2" using lo1 c1 el by (simp add: lo2_def)
  \<comment> \<open>the quotient\<close>
  have lo2_eq: "lo2 = n * c * (k * (el * el * el * el))" by (simp add: lo2_def lo1_def)
  have "j * eu \<le> c * eu" using j eu by (intro mult_right_mono) simp_all
  also have "\<dots> \<le> c * (k * (el * el * el * el))" using num_1 c1 by (intro mult_left_mono) simp_all
  also have "\<dots> = 1 * c * (k * (el * el * el * el))" by simp
  also have "\<dots> \<le> n * c * (k * (el * el * el * el))"
    using n c1 k el by (intro mult_right_mono) simp_all
  finally have "j * eu \<le> lo2" by (simp only: lo2_eq)
  with I(2) f2'(1) have If2: "?I \<le> ?f2" by linarith
  let ?P3 = "?f2 / ?I"
  have Ipos: "0 < ?I" using I(3) by linarith
  have P3: "lo2 / (j * eu) \<le> ?P3" "?P3 \<le> hi2 / (j * el)" "1 \<le> ?P3"
  proof -
    show "lo2 / (j * eu) \<le> ?P3" using lo2 f2'(1) Ipos I(2) by (intro frac_le) simp_all
    have "0 < j * el" using j el by simp
    then show "?P3 \<le> hi2 / (j * el)" using f2'(2) f2'(3) I(1) by (intro frac_le) simp_all
    show "1 \<le> ?P3" using If2 Ipos by simp
  qed
  let ?f3 = "round_to_53 ?P3"
  have f3: "lo2 / (j * eu) * el \<le> ?f3" "?f3 \<le> hi2 / (j * el) * eu"
    using round_to_53_between [OF P3(3) P3(1) P3(2), folded el_def eu_def] by simp_all
  have el_half: "1 / 2 \<le> el" by (simp add: el_def)
  have "1 * (1 / 2) \<le> j * el" using j el_half by (intro mult_mono) simp_all
  then have jel: "1 / 2 \<le> j * el" by simp
  then have "hi2 / (j * el) \<le> hi2 / (1 / 2)" using hi2(2) by (intro divide_left_mono) simp_all
  then have "hi2 / (j * el) \<le> 2 ^ 134" using hi2(1) by simp
  moreover have "0 \<le> hi2 / (j * el)" using hi2(2) jel by simp
  ultimately have "hi2 / (j * el) * eu \<le> 2 ^ 134 * 2" using eu by (intro mult_mono) simp_all
  with f3(2) have "?f3 < 2 ^ 1024" by simp
  then have d3: "ddiv (Fin ?f2) (Fin ?I) = Fin ?f3"
    using P3(3) Ipos by (simp add: ddiv_def round_binary64_finite)
  \<comment> \<open>the bounds in terms of the exact value\<close>
  define w where "w = n * c / j"
  have w: "0 \<le> w" using n c1 j by (simp add: w_def)
  have jpos: "0 < j" using j by simp
  have eupos: "0 < eu" using eu by simp
  have gen: "w * (6 / 5 * tl) = 6 / 5 * n * c / j * tl" for tl
    by (simp add: w_def)
  have eq_lo: "lo2 / (j * eu) * el = w * (k * (el * el * el * el * el) / eu)"
    using jpos eupos by (simp add: lo2_eq w_def)
  have "6 / 5 * n * c / j * (1 - 1 / 2 ^ 50) = w * (6 / 5 * (1 - 1 / 2 ^ 50))"
    by (rule gen [symmetric])
  also have "\<dots> \<le> w * (k * (el * el * el * el * el) / eu)"
    using num_lo w by (rule mult_left_mono)
  also have "\<dots> = lo2 / (j * eu) * el" by (rule eq_lo [symmetric])
  also have "\<dots> \<le> ?f3" by (rule f3(1))
  finally have lo: "6 / 5 * n * c / j * (1 - 1 / 2 ^ 50) \<le> ?f3" .
  have hi2_eq: "hi2 = n * c * (k * (eu * eu * eu * eu))" by (simp add: hi2_def hi1_def)
  have eq_hi: "hi2 / (j * el) * eu = w * (k * (eu * eu * eu * eu * eu) / el)"
    using jpos el by (simp add: hi2_eq w_def)
  have "?f3 \<le> hi2 / (j * el) * eu" by (rule f3(2))
  also have "\<dots> = w * (k * (eu * eu * eu * eu * eu) / el)" by (rule eq_hi)
  also have "\<dots> \<le> w * (6 / 5 * (1 + 1 / 2 ^ 50))"
    using num_hi w by (rule mult_left_mono)
  also have "\<dots> = 6 / 5 * n * c / j * (1 + 1 / 2 ^ 50)" by (rule gen)
  finally have hi: "?f3 \<le> 6 / 5 * n * c / j * (1 + 1 / 2 ^ 50)" .
  from d1 d2 d3 lo hi show ?thesis by simp
qed

section \<open>The planner\<close>

lemma planner_nat:
  assumes threads: "1 \<le> sint (nthreads r)"
    and size: "size_of_double (dmul (Fin 1000) (lineLength r)) = Some size1000"
  defines "isz \<equiv> unat (inputEnd r - inputStart r)"
  defines "cs0 \<equiv> max (unat size1000) (2 ^ 18)"
  defines "cc0 \<equiv> max (isz div cs0) 1"
  defines "n \<equiv> nat (sint (nthreads r))"
  shows "\<exists>r'. determine_chunking_strategy r = Some r' \<and>
           unat (chunkCount r') = (if n < cc0 then n * nat \<lceil>real cc0 / real n\<rceil> else cc0) \<and>
           sint (nthreads r') = (if n < cc0 then int n else int cc0) \<and>
           unat (chunkSize r') = isz div unat (chunkCount r') \<and>
           r' = r\<lparr>chunkCount := chunkCount r', nthreads := nthreads r', chunkSize := chunkSize r'\<rparr>"
proof -
  define iszw where "iszw = inputEnd r - inputStart r"
  define cs where "cs = max size1000 (push_bit 18 1 :: size_t)"
  define cc where "cc = max (iszw div cs) (1 :: size_t)"
  define z where "z = (scast (nthreads r) :: size_t)"
  have z: "unat z = n" using threads by (simp add: unat_scast_nonneg n_def z_def)
  have npos: "0 < n" using threads by (simp add: n_def)
  have nlt: "n < 2 ^ 31" using sint_lt [of "nthreads r"] by (simp add: n_def)
  have cs: "unat cs = cs0" by (simp add: unat_max cs0_def cs_def)
  have cspos: "2 ^ 18 \<le> cs0" by (simp add: cs0_def)
  have cs_ne: "cs \<noteq> 0" using cs cspos by (metis unat_0 power_eq_0_iff le_zero_eq zero_neq_numeral)
  have cc: "unat cc = cc0" by (simp add: unat_max unat_div cs cc0_def isz_def cc_def iszw_def)
  have ccpos: "0 < cc0" by (simp add: cc0_def)
  have "isz < 2 ^ 64" using unsigned_less [of iszw] by (simp add: isz_def iszw_def)
  then have "isz div cs0 \<le> 2 ^ 64 div 2 ^ 18"
    using cspos by (meson div_le_mono div_le_mono2 le_trans less_imp_le zero_less_numeral zero_less_power)
  then have ccub: "cc0 \<le> 2 ^ 46" by (simp add: cc0_def)
  have z_ne: "z \<noteq> 0" using z npos by (metis unat_0 less_numeral_extra(3))
  have unfold: "determine_chunking_strategy r =
     (if cc > z then
        (let chunkCount1 = z * (1 + (cc - 1) div z)
         in if chunkCount1 = 0 then None
            else Some (r\<lparr>chunkCount := chunkCount1, chunkSize := iszw div chunkCount1\<rparr>))
      else Some (r\<lparr>chunkCount := cc, nthreads := ucast cc, chunkSize := iszw div cc\<rparr>))"
    unfolding cc_def cs_def z_def iszw_def
    using cs_ne [unfolded cs_def] z_ne [unfolded z_def]
    by (simp add: determine_chunking_strategy_def size Let_def)
  show ?thesis
  proof (cases "n < cc0")
    case True
    then have gt: "cc > z" by (simp add: word_less_nat_alt z cc)
    define q where "q = 1 + (cc - 1) div z"
    have m1: "unat (cc - 1) = cc0 - 1" using cc ccpos
      by (metis unat_minus_one unat_eq_zero less_numeral_extra(3))
    have dv: "unat ((cc - 1) div z) = (cc0 - 1) div n" by (simp only: unat_div m1 z)
    have "(cc0 - 1) div n \<le> cc0 - 1" by (rule div_le_dividend)
    then have small: "1 + (cc0 - 1) div n \<le> 2 ^ 46" using ccub ccpos by linarith
    have "(2::nat) ^ 46 < 2 ^ 64" by (rule power_strict_increasing) simp_all
    then have "unat (1 :: size_t) + unat ((cc - 1) div z) < 2 ^ LENGTH(64)"
      using small dv by simp
    then have q: "unat q = 1 + (cc0 - 1) div n"
      unfolding q_def using dv by (simp add: unat_add_lem [THEN iffD1])
    have "n * ((cc0 - 1) div n) \<le> cc0 - 1" by simp
    then have "n * (1 + (cc0 - 1) div n) \<le> n + (cc0 - 1)" by (simp add: algebra_simps)
    also have "\<dots> < 2 ^ 31 + 2 ^ 46" using nlt ccub ccpos by linarith
    also have "\<dots> < (2::nat) ^ 64" by simp
    finally have "unat z * unat q < 2 ^ LENGTH(64)" using z q by simp
    then have zq: "unat (z * q) = n * (1 + (cc0 - 1) div n)"
      using z q by (simp add: unat_mult_lem [THEN iffD1])
    have "0 < n * (1 + (cc0 - 1) div n)" using npos by simp
    then have zq_ne: "z * q \<noteq> 0" using zq by (metis unat_0 less_numeral_extra(3))
    have ce: "n * (1 + (cc0 - 1) div n) = n * nat \<lceil>real cc0 / real n\<rceil>"
      using ceil_div_nat [OF ccpos npos] by simp
    have sn: "sint (nthreads r) = int n" using threads by (simp add: n_def)
    show ?thesis using gt zq_ne zq ce True sn
      by (simp add: unfold Let_def q_def [symmetric] unat_div isz_def iszw_def)
  next
    case False
    then have ngt: "\<not> cc > z" by (simp add: word_less_nat_alt z cc)
    have "cc0 < 2 ^ 31" using False nlt by simp
    have "sint (ucast cc :: cint) = signed_take_bit 31 (int (unat cc))"
      using signed_ucast_eq [of cc, where 'c = 32] by simp 
    also have "\<dots> = int cc0"
      using \<open>cc0 < 2 ^ 31\<close> cc by (simp add: signed_take_bit_int_eq_self)
    finally have s: "sint (ucast cc :: cint) = int cc0" .
    show ?thesis using ngt s cc False by (simp add: unfold unat_div isz_def iszw_def)
  qed
qed

lemma size1000_line_50: "size_of_double (dmul (Fin 1000) (Fin 50)) = Some 50000"
  by (simp add: size_of_double_def dmul_def round_binary64_def round_to_53_def ilog2_def
      round_even_def pow2_def Let_def compute_bitlen)

lemma planner_undefined:
  "size_of_double (dmul (Fin 1000) (lineLength r)) = None \<Longrightarrow> determine_chunking_strategy r = None"
  by (simp add: determine_chunking_strategy_def)

lemma size1000_defined:
  assumes "1 \<le> L" "L \<le> 2 ^ 53"
  shows "\<exists>s. size_of_double (dmul (Fin 1000) (Fin L)) = Some s"
proof -
  let ?x = "1000 * L"
  let ?f = "round_to_53 ?x"
  have x: "1 \<le> ?x" using assms by simp
  have "?f \<le> ?x * (1 + 1 / 2 ^ 53)" by (rule round_to_53_upper [OF x])
  also have "\<dots> \<le> (1000 * 2 ^ 53) * (1 + 1 / 2 ^ 53)"
    using assms by (intro mult_right_mono) simp_all
  also have "\<dots> < 2 ^ 64" by simp
  finally have f64: "?f < 2 ^ 64" .
  also have "(2 :: real) ^ 64 < pow2 1024" by (simp add: pow2_def)
  finally have "\<not> pow2 1024 \<le> ?f" by simp
  then have d: "dmul (Fin 1000) (Fin L) = Fin ?f"
    by (simp add: dmul_def round_binary64_ge1 [OF x])
  have f1: "1 \<le> ?f" by (rule round_to_53_ge1 [OF x])
  then have "0 \<le> \<lfloor>?f\<rfloor>" by simp
  moreover have "\<lfloor>?f\<rfloor> < 2 ^ 64" using f64 by (simp add: floor_less_iff)
  ultimately show ?thesis using f1 by (simp add: d size_of_double_def Let_def)
qed

text \<open>
  C3. The planner runs with at least one thread. It is defined exactly when
  \<^verbatim>\<open>1000 * lineLength\<close> converts to a \<^verbatim>\<open>size_t\<close>, \<open>size1000\<close>, which is the case for
  every line length from 1 to \<open>2\<^sup>5\<^sup>3\<close>. It then returns with: the first chunk size
  \<open>max size1000 2\<^sup>1\<^sup>8\<close>, the first chunk count \<open>max (input_size div chunk_size0) 1\<close>;
  when this count exceeds the number of threads, the chunk count is the number of
  threads times the ceiling of their quotient, and the number of threads is kept;
  otherwise the number of threads becomes the chunk count; the final chunk size is the
  input size divided by the chunk count. None of these computations wraps around, and no
  other field changes.
\<close>

theorem determine_chunking_strategy_plan:
  assumes "1 \<le> sint (nthreads r)"
  shows "(case size_of_double (dmul (Fin 1000) (lineLength r)) of
            None \<Rightarrow> determine_chunking_strategy r = None
          | Some size1000 \<Rightarrow>
              (\<exists>r'. determine_chunking_strategy r = Some r' \<and>
                 (let input_size = unat (inputEnd r - inputStart r);
                      chunk_size0 = max (unat size1000) (2 ^ 18);
                      chunk_count0 = max (input_size div chunk_size0) 1;
                      n = nat (sint (nthreads r))
                  in unat (chunkCount r') =
                       (if n < chunk_count0 then n * nat \<lceil>real chunk_count0 / real n\<rceil>
                        else chunk_count0) \<and>
                     sint (nthreads r') = (if n < chunk_count0 then int n else int chunk_count0) \<and>
                     unat (chunkSize r') = input_size div unat (chunkCount r')) \<and>
                 r' = r\<lparr>chunkCount := chunkCount r', nthreads := nthreads r',
                         chunkSize := chunkSize r'\<rparr>)) \<and>
         (\<forall>L. lineLength r = Fin L \<and> 1 \<le> L \<and> L \<le> 2 ^ 53 \<longrightarrow>
              size_of_double (dmul (Fin 1000) (lineLength r)) \<noteq> None)"
proof (intro conjI allI impI)
  show "case size_of_double (dmul (Fin 1000) (lineLength r)) of
            None \<Rightarrow> determine_chunking_strategy r = None
          | Some size1000 \<Rightarrow>
              (\<exists>r'. determine_chunking_strategy r = Some r' \<and>
                 (let input_size = unat (inputEnd r - inputStart r);
                      chunk_size0 = max (unat size1000) (2 ^ 18);
                      chunk_count0 = max (input_size div chunk_size0) 1;
                      n = nat (sint (nthreads r))
                  in unat (chunkCount r') =
                       (if n < chunk_count0 then n * nat \<lceil>real chunk_count0 / real n\<rceil>
                        else chunk_count0) \<and>
                     sint (nthreads r') = (if n < chunk_count0 then int n else int chunk_count0) \<and>
                     unat (chunkSize r') = input_size div unat (chunkCount r')) \<and>
                 r' = r\<lparr>chunkCount := chunkCount r', nthreads := nthreads r',
                         chunkSize := chunkSize r'\<rparr>)"
  proof (cases "size_of_double (dmul (Fin 1000) (lineLength r))")
    case None
    then show ?thesis by (simp add: planner_undefined)
  next
    case (Some s)
    from planner_nat [OF assms Some] show ?thesis unfolding Some Let_def by simp
  qed
next
  fix L
  assume "lineLength r = Fin L \<and> 1 \<le> L \<and> L \<le> 2 ^ 53"
  then show "size_of_double (dmul (Fin 1000) (lineLength r)) \<noteq> None"
    using size1000_defined [of L] by auto
qed

theorem determine_chunking_strategy_plan_witness:
  "1 \<le> sint (nthreads reader_10MiB) \<and>
   lineLength reader_10MiB = Fin 50 \<and>
   size_of_double (dmul (Fin 1000) (lineLength reader_10MiB)) = Some 50000 \<and>
   (\<exists>r'. determine_chunking_strategy reader_10MiB = Some r' \<and>
      unat (chunkCount r') = 48 \<and> sint (nthreads r') = 16 \<and> unat (chunkSize r') = 218453)"
proof -
  have t: "1 \<le> sint (nthreads reader_10MiB)" by (simp add: reader_10MiB_def)
  have l: "lineLength reader_10MiB = Fin 50" by (simp add: reader_10MiB_def)
  have s: "size_of_double (dmul (Fin 1000) (lineLength reader_10MiB)) = Some 50000"
    by (simp add: l size1000_line_50)
  have c: "nat \<lceil>40 / 16 :: real\<rceil> = 3" by simp
  from determine_chunking_strategy_plan [OF t, THEN conjunct1]
  obtain r' where r': "determine_chunking_strategy reader_10MiB = Some r'"
    and cc: "unat (chunkCount r') = 48"
    and nt: "sint (nthreads r') = 16"
    and cs: "unat (chunkSize r') = 10485760 div unat (chunkCount r')"
    unfolding s by (auto simp: reader_10MiB_def Let_def c)
  from cs cc have "unat (chunkSize r') = 218453" by simp
  with t l s r' cc nt show ?thesis by blast
qed

text \<open>
  C8. With at least one thread, the planner fails only where the conversion of
  \<^verbatim>\<open>1000 * lineLength\<close> is undefined; otherwise running it again on its own result
  (the same input and line length, the number of threads as the first run left it)
  returns this result unchanged: the same chunk size, chunk count and number of threads.
\<close>

theorem determine_chunking_strategy_idempotent:
  assumes "1 \<le> sint (nthreads r)"
  shows "case determine_chunking_strategy r of
           None \<Rightarrow> size_of_double (dmul (Fin 1000) (lineLength r)) = None
         | Some r1 \<Rightarrow> determine_chunking_strategy r1 = Some r1"
proof (cases "size_of_double (dmul (Fin 1000) (lineLength r))")
  case None
  then show ?thesis by (simp add: planner_undefined)
next
  case (Some s)
  define isz where "isz = unat (inputEnd r - inputStart r)"
  define cc0 where "cc0 = max (isz div max (unat s) (2 ^ 18)) 1"
  define n where "n = nat (sint (nthreads r))"
  from planner_nat [OF assms Some]
  obtain r1 where r1: "determine_chunking_strategy r = Some r1"
    and cc1: "unat (chunkCount r1) = (if n < cc0 then n * nat \<lceil>real cc0 / real n\<rceil> else cc0)"
    and nt1: "sint (nthreads r1) = (if n < cc0 then int n else int cc0)"
    and cs1: "unat (chunkSize r1) = isz div unat (chunkCount r1)"
    and eq1: "r1 = r\<lparr>chunkCount := chunkCount r1, nthreads := nthreads r1, chunkSize := chunkSize r1\<rparr>"
    unfolding isz_def cc0_def n_def by blast
  have ccpos: "0 < cc0" by (simp add: cc0_def)
  have npos: "0 < n" using assms by (simp add: n_def)
  have same: "inputEnd r1 = inputEnd r" "inputStart r1 = inputStart r" "lineLength r1 = lineLength r"
    by (subst eq1, simp)+
  have t1: "1 \<le> sint (nthreads r1)" using nt1 ccpos npos by (simp split: if_splits)
  have s1: "size_of_double (dmul (Fin 1000) (lineLength r1)) = Some s" using Some same by simp
  define n1 where "n1 = nat (sint (nthreads r1))"
  have n1: "n1 = (if n < cc0 then n else cc0)" using nt1 by (simp add: n1_def)
  from planner_nat [OF t1 s1]
  obtain r2 where r2: "determine_chunking_strategy r1 = Some r2"
    and cc2: "unat (chunkCount r2) = (if n1 < cc0 then n1 * nat \<lceil>real cc0 / real n1\<rceil> else cc0)"
    and nt2: "sint (nthreads r2) = (if n1 < cc0 then int n1 else int cc0)"
    and cs2: "unat (chunkSize r2) = isz div unat (chunkCount r2)"
    and eq2: "r2 = r1\<lparr>chunkCount := chunkCount r2, nthreads := nthreads r2, chunkSize := chunkSize r2\<rparr>"
    unfolding isz_def cc0_def n1_def same by blast
  have "unat (chunkCount r2) = unat (chunkCount r1)" using cc1 cc2 n1 by (simp split: if_splits)
  then have a: "chunkCount r2 = chunkCount r1" by (simp add: word_unat_eq_iff)
  have "sint (nthreads r2) = sint (nthreads r1)" using nt1 nt2 n1 by (simp split: if_splits)
  then have b: "nthreads r2 = nthreads r1" by (simp add: signed_word_eqI)
  have "unat (chunkSize r2) = unat (chunkSize r1)" using cs1 cs2 a by simp
  then have c: "chunkSize r2 = chunkSize r1" by (simp add: word_unat_eq_iff)
  have "r2 = r1" by (subst eq2) (simp add: a b c)
  with r1 r2 show ?thesis by simp
qed

theorem determine_chunking_strategy_idempotent_witness:
  "1 \<le> sint (nthreads reader_10MiB) \<and>
   determine_chunking_strategy reader_10MiB =
     Some (reader_10MiB\<lparr>chunkCount := 48, chunkSize := 218453\<rparr>) \<and>
   determine_chunking_strategy (reader_10MiB\<lparr>chunkCount := 48, chunkSize := 218453\<rparr>) =
     Some (reader_10MiB\<lparr>chunkCount := 48, chunkSize := 218453\<rparr>)"
proof -
  have t: "1 \<le> sint (nthreads reader_10MiB)" by (simp add: reader_10MiB_def)
  have r: "determine_chunking_strategy reader_10MiB =
             Some (reader_10MiB\<lparr>chunkCount := 48, chunkSize := 218453\<rparr>)"
    by (simp add: determine_chunking_strategy_def reader_10MiB_def size1000_line_50)
  from determine_chunking_strategy_idempotent [OF t] r t show ?thesis by simp
qed

text \<open>
  C9. The constructor stores \<^verbatim>\<open>std::max(meanLineLen, 1.0)\<close>: for every mean line
  length that compares less than or equal to 1.0 (zero, negative values and minus
  infinity included) this is 1.0, and the reader it builds, with the plan made for it, is
  the one built for a mean line length of 1.0.
\<close>

theorem constructor_clamps_line_length:
  assumes "dle meanLineLen (Fin 1)"
  shows "dmax meanLineLen (Fin 1) = Fin 1 \<and>
         new_ChunkedDataReader reader meanLineLen = new_ChunkedDataReader reader (Fin 1)"
proof -
  have "dmax meanLineLen (Fin 1) = Fin 1"
    using assms by (cases meanLineLen) (auto simp: dmax_def dle_def dless_def)
  moreover have "dmax (Fin 1) (Fin 1) = Fin 1" by (simp add: dmax_def dless_def)
  ultimately show ?thesis by (simp add: new_ChunkedDataReader_def)
qed

theorem constructor_clamps_line_length_witness:
  "dle (Fin (- 5 / 2)) (Fin 1) \<and>
   dmax (Fin (- 5 / 2)) (Fin 1) = Fin 1 \<and>
   new_ChunkedDataReader greader_small (Fin (- 5 / 2)) = new_ChunkedDataReader greader_small (Fin 1)"
proof -
  have h: "dle (Fin (- 5 / 2)) (Fin 1)" by (simp add: dle_def dless_def)
  from constructor_clamps_line_length [OF h] h show ?thesis by simp
qed

section \<open>The reconciler\<close>

lemma order_chunk_unfold:
  "order_chunk env (r, t) =
     (if start (tacc t) = lastChunkEnd r \<and> lastChunkEnd r \<le> endp (tacc t)
      then (None, r\<lparr>lastChunkEnd := endp (tacc t)\<rparr>, t)
      else (case call_read_chunk env
                   (t\<lparr>txcc := (txcc t)\<lparr>start := lastChunkEnd r, true_start := True\<rparr>\<rparr>) of
              (Some e, t2) \<Rightarrow> (Some e, r, t2)
            | (None, t2) \<Rightarrow>
                (if start (tacc t2) = lastChunkEnd r \<and> lastChunkEnd r \<le> endp (tacc t2)
                 then (None, r\<lparr>lastChunkEnd := endp (tacc t2)\<rparr>, t2)
                 else (case call_read_chunk env
                              (t2\<lparr>txcc := (txcc t2)\<lparr>start := lastChunkEnd r,
                                                      true_start := True\<rparr>\<rparr>) of
                         (Some e, t4) \<Rightarrow> (Some e, r, t4)
                       | (None, t4) \<Rightarrow> (Some AssertionError, r, t4)))))"
  by (simp add: order_chunk_def numeral_2_eq_2 Let_def split: prod.splits option.splits)

lemma call_read_chunk_calls:
  "call_read_chunk env t = (e, t') \<Longrightarrow> calls t' = calls t @ [ReadChunk (txcc t)] \<and> txcc t' = txcc t"
  by (auto simp: call_read_chunk_def split: prod.splits)

lemma call_read_chunk_quiet:
  "\<forall>x a c. fst (read_chunk env x a c) = None \<Longrightarrow> call_read_chunk env t = (e, t') \<Longrightarrow> e = None"
  by (auto simp: call_read_chunk_def split: prod.splits) (metis fst_conv)

lemma order_chunk_retry:
  assumes "order_chunk env (r, t) = (e, r', t')"
  shows "\<exists>xs. calls t' = calls t @ map ReadChunk xs \<and> length xs \<le> 2 \<and>
           (\<forall>x \<in> set xs. start x = lastChunkEnd r \<and> true_start x) \<and>
           (e = None \<longrightarrow>
              length xs \<le> 1 \<and> start (tacc t') = lastChunkEnd r \<and>
              lastChunkEnd r \<le> endp (tacc t') \<and> r' = r\<lparr>lastChunkEnd := endp (tacc t')\<rparr>) \<and>
           (e \<noteq> None \<longrightarrow> r' = r \<and> xs \<noteq> []) \<and>
           ((\<forall>x a c. fst (read_chunk env x a c) = None) \<and> e \<noteq> None \<longrightarrow>
              e = Some AssertionError \<and> length xs = 2)"
proof -
  let ?re = "\<lambda>t. t\<lparr>txcc := (txcc t)\<lparr>start := lastChunkEnd r, true_start := True\<rparr>\<rparr>"
  let ?ok = "\<lambda>t. start (tacc t) = lastChunkEnd r \<and> lastChunkEnd r \<le> endp (tacc t)"
  show ?thesis
  proof (cases "?ok t")
    case True
    with assms have "e = None" "r' = r\<lparr>lastChunkEnd := endp (tacc t)\<rparr>" "t' = t"
      by (auto simp: order_chunk_unfold)
    with True show ?thesis by (intro exI [of _ "[]"]) auto
  next
    case nok1: False
    obtain e1 t2 where c1: "call_read_chunk env (?re t) = (e1, t2)" by (cases "call_read_chunk env (?re t)")
    from call_read_chunk_calls [OF c1]
    have l1: "calls t2 = calls t @ [ReadChunk (txcc (?re t))]" and x2: "txcc t2 = txcc (?re t)" by simp_all
    show ?thesis
    proof (cases e1)
      case (Some err)
      with assms nok1 c1 have "e = Some err" "r' = r" "t' = t2" by (auto simp: order_chunk_unfold)
      moreover have "\<not> (\<forall>x a c. fst (read_chunk env x a c) = None)"
        using call_read_chunk_quiet [OF _ c1] Some by blast
      ultimately show ?thesis using l1 by (intro exI [of _ "[txcc (?re t)]"]) auto
    next
      case None
      show ?thesis
      proof (cases "?ok t2")
        case True
        with assms nok1 c1 None have "e = None" "r' = r\<lparr>lastChunkEnd := endp (tacc t2)\<rparr>" "t' = t2"
          by (auto simp: order_chunk_unfold)
        with True l1 show ?thesis by (intro exI [of _ "[txcc (?re t)]"]) auto
      next
        case nok2: False
        obtain e2 t4 where c2: "call_read_chunk env (?re t2) = (e2, t4)" by (cases "call_read_chunk env (?re t2)")
        from call_read_chunk_calls [OF c2] l1
        have l2: "calls t4 = calls t @ [ReadChunk (txcc (?re t)), ReadChunk (txcc (?re t2))]" by simp
        from assms nok1 c1 None nok2 c2
        have res: "e = Some (case e2 of Some err \<Rightarrow> err | None \<Rightarrow> AssertionError)" "r' = r" "t' = t4"
          by (auto simp: order_chunk_unfold split: option.splits)
        have "(\<forall>x a c. fst (read_chunk env x a c) = None) \<longrightarrow> e2 = None"
          using call_read_chunk_quiet [OF _ c2] by blast
        with res l2 show ?thesis
          by (intro exI [of _ "[txcc (?re t), txcc (?re t2)]"]) auto
      qed
    qed
  qed
qed

text \<open>
  The claim C2 as stated fails: when the condition is unsatisfied on the second attempt
  too, \<^verbatim>\<open>read_chunk\<close> has been called a second time before the assertion fails.
\<close>

theorem order_chunk_second_failure_counterexample:
  "order_chunk stuck_parser (reader_two_chunks, worker_second) =
     (Some AssertionError, reader_two_chunks,
      worker_second\<lparr>txcc := \<lparr>start = 4150, endp = 4196, true_start = True, true_end = True\<rparr>,
                      calls := [ReadChunk \<lparr>start = 4150, endp = 4196, true_start = True, true_end = True\<rparr>,
                                ReadChunk \<lparr>start = 4150, endp = 4196, true_start = True, true_end = True\<rparr>]\<rparr>)"
  by (simp add: order_chunk_unfold call_read_chunk_def stuck_parser_def exact_parser_def
      reader_two_chunks_def worker_second_def)

text \<open>
  C2, amended. \<^verbatim>\<open>order_chunk\<close> calls \<^verbatim>\<open>read_chunk\<close> at most twice, each time with
  the expected start set to \<^verbatim>\<open>lastChunkEnd\<close> and \<^verbatim>\<open>true_start\<close> set. When it
  returns normally it has called it at most once, the actual coordinates satisfy the
  acceptance condition and \<^verbatim>\<open>lastChunkEnd\<close> has become their end. When it fails,
  the reader is unchanged and \<^verbatim>\<open>read_chunk\<close> was called at least once; with a parser
  that does not raise, it fails only by the assertion, after exactly two calls.
\<close>

theorem order_chunk_bounded_retry:
  assumes "order_chunk env (r, t) = (e, r', t')"
  shows "\<exists>xs. calls t' = calls t @ map ReadChunk xs \<and> length xs \<le> 2 \<and>
           (\<forall>x \<in> set xs. start x = lastChunkEnd r \<and> true_start x) \<and>
           (e = None \<longrightarrow>
              length xs \<le> 1 \<and> start (tacc t') = lastChunkEnd r \<and>
              lastChunkEnd r \<le> endp (tacc t') \<and> r' = r\<lparr>lastChunkEnd := endp (tacc t')\<rparr>) \<and>
           (e \<noteq> None \<longrightarrow> r' = r \<and> xs \<noteq> []) \<and>
           ((\<forall>x a c. fst (read_chunk env x a c) = None) \<and> e \<noteq> None \<longrightarrow>
              e = Some AssertionError \<and> length xs = 2)"
  using order_chunk_retry [OF assms] .

theorem order_chunk_bounded_retry_witness:
  "order_chunk exact_parser (reader_two_chunks, worker_second) =
     (None, reader_two_chunks\<lparr>lastChunkEnd := 4196\<rparr>,
      worker_second\<lparr>tctx := \<lparr>row0 = 0, used_nrows = 10, buffers = ()\<rparr>,
                      txcc := \<lparr>start = 4150, endp = 4196, true_start = True, true_end = True\<rparr>,
                      tacc := \<lparr>start = 4150, endp = 4196, true_start = True, true_end = True\<rparr>,
                      calls := [ReadChunk \<lparr>start = 4150, endp = 4196, true_start = True, true_end = True\<rparr>]\<rparr>) \<and>
   (\<exists>xs. [ReadChunk \<lparr>start = 4150, endp = 4196, true_start = True, true_end = True\<rparr>] =
           calls worker_second @ map ReadChunk xs \<and> length xs \<le> 1)"
proof -
  have e: "order_chunk exact_parser (reader_two_chunks, worker_second) =
     (None, reader_two_chunks\<lparr>lastChunkEnd := 4196\<rparr>,
      worker_second\<lparr>tctx := \<lparr>row0 = 0, used_nrows = 10, buffers = ()\<rparr>,
                      txcc := \<lparr>start = 4150, endp = 4196, true_start = True, true_end = True\<rparr>,
                      tacc := \<lparr>start = 4150, endp = 4196, true_start = True, true_end = True\<rparr>,
                      calls := [ReadChunk \<lparr>start = 4150, endp = 4196, true_start = True, true_end = True\<rparr>]\<rparr>)"
    by (simp add: order_chunk_unfold call_read_chunk_def exact_parser_def reader_two_chunks_def
        worker_second_def)
  from order_chunk_bounded_retry [OF e] e show ?thesis by auto
qed

section \<open>The commit phase\<close>

lemma order_chunk_frame:
  assumes "order_chunk env (r, t) = (e, r', t')"
  shows "nrows_written r' = nrows_written r \<and> nrows_allocated r' = nrows_allocated r \<and>
         nrows_max r' = nrows_max r \<and> chunkCount r' = chunkCount r \<and>
         lastChunkEnd r \<le> lastChunkEnd r' \<and>
         (e = None \<longrightarrow> lastChunkEnd r' = endp (tacc t'))"
  using order_chunk_retry [OF assms] by (cases "e = None") auto

lemma realloc_frame:
  assumes "realloc_output_columns env i n r = Some (e, r')"
  shows "nrows_written r' = nrows_written r \<and> nrows_max r' = nrows_max r \<and>
         chunkCount r' = chunkCount r \<and> lastChunkEnd r' = lastChunkEnd r"
  using assms
  by (auto simp: realloc_output_columns_def Let_def set_nrows_def split: option.splits if_splits)

lemma call_orderBuffer_tacc:
  "call_orderBuffer env t = (e, t') \<Longrightarrow> tacc t' = tacc t"
  by (auto simp: call_orderBuffer_def split: prod.splits)

lemma commit_try_lastChunkEnd:
  assumes "commit_try env i (r, t) = Some (e, r', t')"
  shows "lastChunkEnd r \<le> lastChunkEnd r' \<and> (e = None \<longrightarrow> lastChunkEnd r' = endp (tacc t'))"
proof -
  let ?t0 = "t\<lparr>tctx := (tctx t)\<lparr>row0 := nrows_written r\<rparr>\<rparr>"
  obtain e1 r1 t1 where oc: "order_chunk env (r, ?t0) = (e1, r1, t1)"
    by (cases "order_chunk env (r, ?t0)")
  from order_chunk_frame [OF oc] have
    p: "lastChunkEnd r \<le> lastChunkEnd r1"
    and pe: "e1 = None \<longrightarrow> lastChunkEnd r1 = endp (tacc t1)" by blast+
  show ?thesis
  proof (cases e1)
    case (Some err)
    with assms oc p show ?thesis by (auto simp: commit_try_def)
  next
    case None
    from assms oc None p pe show ?thesis
      by (auto simp: commit_try_def Let_def split: if_splits option.splits prod.splits
          dest!: realloc_frame call_orderBuffer_tacc)
  qed
qed

lemma capture_exception_rdr: "rdr (capture_exception e w) = rdr w"
  by (simp add: capture_exception_def split: option.splits)

lemma capture_exception_caught: "oem (capture_exception e w) \<noteq> None"
  by (simp add: capture_exception_def split: option.splits)

lemma commit_phase_lastChunkEnd:
  assumes "commit_phase env i (w, t) = Some (w', t')"
  shows "lastChunkEnd (rdr w) \<le> lastChunkEnd (rdr w') \<and>
         (oem w = None \<and> oem w' = None \<longrightarrow> lastChunkEnd (rdr w') = endp (tacc t'))"
  using assms
  by (auto simp: commit_phase_def exception_caught_def capture_exception_rdr
      capture_exception_caught split: if_splits option.splits prod.splits dest!: commit_try_lastChunkEnd)

lemma parse_phase_rdr: "parse_phase env i (w, t) = (w', t') \<Longrightarrow> rdr w' = rdr w"
  by (auto simp: parse_phase_def parse_try_def show_progress_def emit_progress_def
      capture_exception_rdr split: prod.splits option.splits if_splits sum.splits)

lemma iteration_lastChunkEnd:
  assumes "iteration env i (w, t) = Some (w', t')"
  shows "lastChunkEnd (rdr w) \<le> lastChunkEnd (rdr w')"
proof (cases "exception_caught w")
  case True
  with assms show ?thesis by (simp add: iteration_def)
next
  case False
  obtain w1 t1 where p: "parse_phase env i (w, t) = (w1, t1)" by (cases "parse_phase env i (w, t)")
  with assms False have "commit_phase env i (w1, t1) = Some (w', t')" by (simp add: iteration_def)
  from commit_phase_lastChunkEnd [OF this] parse_phase_rdr [OF p] show ?thesis by simp
qed

lemma chunk_loop_lastChunkEnd:
  "chunk_loop env is st = Some st' \<Longrightarrow> lastChunkEnd (rdr (fst st)) \<le> lastChunkEnd (rdr (fst st'))"
proof (induction "is" arbitrary: st)
  case Nil
  then show ?case by simp
next
  case (Cons i "is")
  from Cons.prems obtain st1 where i: "iteration env i st = Some st1"
    and l: "chunk_loop env is st1 = Some st'" by (auto split: option.splits)
  from iteration_lastChunkEnd [of env i "fst st" "snd st" "fst st1" "snd st1"] i
  have "lastChunkEnd (rdr (fst st)) \<le> lastChunkEnd (rdr (fst st1))" by simp
  with Cons.IH [OF l] show ?case by simp
qed

text \<open>
  The claim C7 as stated fails: a chunk whose actual range is empty is accepted and
  committed, and leaves \<^verbatim>\<open>lastChunkEnd\<close> where it was.
\<close>

theorem lastChunkEnd_not_strict_counterexample:
  "commit_phase exact_parser 1 (run_of reader_long_line, worker_covered) =
     Some (run_of reader_long_line,
           worker_covered\<lparr>tctx := \<lparr>row0 = 1, used_nrows = 0, buffers = ()\<rparr>,
                           calls := [OrderBuffer]\<rparr>) \<and>
   \<not> lastChunkEnd (rdr (run_of reader_long_line)) < lastChunkEnd (rdr (run_of reader_long_line))"
  by (simp add: commit_phase_def commit_try_def order_chunk_unfold exception_caught_def
      call_orderBuffer_def exact_parser_def run_of_def reader_long_line_def worker_covered_def Let_def)

text \<open>
  C7, amended. \<^verbatim>\<open>lastChunkEnd\<close> never decreases: not in a commit phase, whatever the
  worker brings to it, nor over the loop of a worker. After a commit phase that started
  and ended without a captured exception, it is the end of the actual coordinates of the
  chunk.
\<close>

theorem lastChunkEnd_monotone:
  "(commit_phase env i (w, t) = Some (w', t') \<longrightarrow>
      lastChunkEnd (rdr w) \<le> lastChunkEnd (rdr w') \<and>
      (oem w = None \<and> oem w' = None \<longrightarrow> lastChunkEnd (rdr w') = endp (tacc t'))) \<and>
   (chunk_loop env is (w, t) = Some (w', t') \<longrightarrow> lastChunkEnd (rdr w) \<le> lastChunkEnd (rdr w'))"
  using commit_phase_lastChunkEnd [of env i w t w' t'] chunk_loop_lastChunkEnd [of env "is" "(w, t)" "(w', t')"]
  by auto


theorem lastChunkEnd_monotone_witness:
  "commit_phase exact_parser 1 (run_of reader_two_chunks, worker_second) =
     Some (run_of (reader_two_chunks\<lparr>lastChunkEnd := 4196, nrows_written := 15, nrows_allocated := 15,
                                     g := greader_small\<lparr>columns_nrows := 15\<rparr>\<rparr>),
           worker_second\<lparr>tctx := \<lparr>row0 = 5, used_nrows = 10, buffers = ()\<rparr>,
                      txcc := \<lparr>start = 4150, endp = 4196, true_start = True, true_end = True\<rparr>,
                      tacc := \<lparr>start = 4150, endp = 4196, true_start = True, true_end = True\<rparr>,
                      calls := [ReadChunk \<lparr>start = 4150, endp = 4196, true_start = True, true_end = True\<rparr>, OrderBuffer]\<rparr>) \<and>
   lastChunkEnd reader_two_chunks \<le> 4196"
proof -
  have e: "commit_phase exact_parser 1 (run_of reader_two_chunks, worker_second) =
     Some (run_of (reader_two_chunks\<lparr>lastChunkEnd := 4196, nrows_written := 15, nrows_allocated := 15,
                                     g := greader_small\<lparr>columns_nrows := 15\<rparr>\<rparr>),
           worker_second\<lparr>tctx := \<lparr>row0 = 5, used_nrows = 10, buffers = ()\<rparr>,
                      txcc := \<lparr>start = 4150, endp = 4196, true_start = True, true_end = True\<rparr>,
                      tacc := \<lparr>start = 4150, endp = 4196, true_start = True, true_end = True\<rparr>,
                      calls := [ReadChunk \<lparr>start = 4150, endp = 4196, true_start = True, true_end = True\<rparr>, OrderBuffer]\<rparr>)"
    by (simp add: commit_phase_def commit_try_def order_chunk_unfold exception_caught_def
      call_orderBuffer_def call_read_chunk_def realloc_output_columns_def set_nrows_def
      exact_parser_def run_of_def reader_two_chunks_def worker_second_def Let_def)
  from lastChunkEnd_monotone [THEN conjunct1, THEN mp, OF e]
  have "lastChunkEnd reader_two_chunks \<le> 4196" by (simp add: run_of_def)
  with e show ?thesis by simp
qed

section \<open>Evaluation on the examples\<close>

lemmas double_eval = size_of_double_def dmul_def dadd_def ddiv_def round_binary64_def round_to_53_def ilog2_def
      round_even_def pow2_def Let_def compute_bitlen dle_def dless_def
      double_of_ptrdiff_def double_of_size_def dsign_def dinf_def

lemmas run_eval = read_all_def iteration_def parse_phase_def parse_try_def
  show_progress_def commit_phase_def commit_try_def order_chunk_unfold
  thread_exit_def final_progress_def final_push_def discard_buffers_def
  final_status_def thread_init_def compute_chunk_boundaries_def new_ChunkCoordinates_def
  realloc_output_columns_def set_nrows_def emit_progress_def work_done_amount_def
  call_read_chunk_def call_push_buffers_def call_orderBuffer_def capture_exception_def
  exception_caught_def is_keyboard_interrupt_def

lemma constructor_small: "new_ChunkedDataReader greader_small (Fin 10) = Some (Inr reader_small)"
  by (simp add: new_ChunkedDataReader_def greader_small_def reader_small_def dmax_def
      determine_chunking_strategy_def double_eval)

lemma constructor_capped: "new_ChunkedDataReader greader_capped (Fin 10) = Some (Inr reader_capped)"
  by (simp add: new_ChunkedDataReader_def greader_capped_def reader_capped_def dmax_def
      determine_chunking_strategy_def double_eval)

lemma parse_capped:
  "parse_phase rows1000_parser 0 (thread_init rows1000_parser True (run_of reader_capped)) =
     (run_of reader_capped,
      \<lparr>tctx = \<lparr>row0 = 0, used_nrows = 1000, buffers = ()\<rparr>,
       txcc = \<lparr>start = 4096, endp = 14096, true_start = True, true_end = True\<rparr>,
       tacc = \<lparr>start = 4096, endp = 14096, true_start = True, true_end = True\<rparr>,
       calls = [PushBuffers, ReadChunk \<lparr>start = 4096, endp = 14096, true_start = True, true_end = True\<rparr>],
       tMaster = True, tShowProgress = False, tShowAlways = False, tShowWhen = Fin 0\<rparr>)"
  by (simp add: run_eval run_of_def reader_capped_def greader_capped_def rows1000_parser_def exact_parser_def)

section \<open>Capacity of the output\<close>

text \<open>
  C1. The capacity discipline \<open>nrows_written \<le> nrows_allocated \<le> nrows_max\<close> does not
  hold after every commit phase. When a chunk brings more rows than \<open>nrows_max\<close> while
  \<open>nrows_allocated\<close> is still below \<open>nrows_max\<close>, the allocation is clamped to
  \<open>nrows_max\<close> but the rows of the chunk are not truncated: here 1000 rows are counted
  as written with 500 allocated, and \<^verbatim>\<open>read_all\<close> ends normally with a table of
  1000 rows under a limit of 500.
\<close>

theorem commit_exceeds_capacity:
  "commit_phase rows1000_parser 0
     (run_of reader_capped,
      \<lparr>tctx = \<lparr>row0 = 0, used_nrows = 1000, buffers = ()\<rparr>,
       txcc = \<lparr>start = 4096, endp = 14096, true_start = True, true_end = True\<rparr>,
       tacc = \<lparr>start = 4096, endp = 14096, true_start = True, true_end = True\<rparr>,
       calls = [PushBuffers, ReadChunk \<lparr>start = 4096, endp = 14096, true_start = True, true_end = True\<rparr>],
       tMaster = True, tShowProgress = False, tShowAlways = False, tShowWhen = Fin 0\<rparr>) =
   Some (run_of (reader_capped\<lparr>lastChunkEnd := 14096, nrows_written := 1000, nrows_allocated := 500,
                                g := greader_capped\<lparr>columns_nrows := 500\<rparr>\<rparr>),
      \<lparr>tctx = \<lparr>row0 = 0, used_nrows = 1000, buffers = ()\<rparr>,
       txcc = \<lparr>start = 4096, endp = 14096, true_start = True, true_end = True\<rparr>,
       tacc = \<lparr>start = 4096, endp = 14096, true_start = True, true_end = True\<rparr>,
       calls = [PushBuffers, ReadChunk \<lparr>start = 4096, endp = 14096, true_start = True, true_end = True\<rparr>,
                OrderBuffer],
       tMaster = True, tShowProgress = False, tShowAlways = False, tShowWhen = Fin 0\<rparr>) \<and>
   \<not> (1000 :: size_t) \<le> 500 \<and>
   fst (the (read_all rows1000_parser reader_capped)) = None \<and>
   rdr (fst (snd (the (read_all rows1000_parser reader_capped)))) =
     reader_capped\<lparr>lastChunkEnd := 14096, nrows_written := 1000, nrows_allocated := 500,
                    g := greader_capped\<lparr>columns_nrows := 1000\<rparr>\<rparr>"
  by (simp add: run_eval run_of_def reader_capped_def greader_capped_def rows1000_parser_def exact_parser_def)

section \<open>The output allocator\<close>

text \<open>
  When the request is within 1024 of \<open>2\<^sup>6\<^sup>4\<close> and the chunk is not the last one,
  \<^verbatim>\<open>exp_nrows\<close> is at least \<open>2\<^sup>6\<^sup>4\<close> and its conversion to \<^verbatim>\<open>size_t\<close> is undefined.
\<close>

lemma round_to_53_below_2p64: "round_to_53 18446744073709549568 = 18446744073709549568"
  by (simp add: double_eval)

lemma round_to_53_2p64: "round_to_53 18446744073709551616 = 18446744073709551616"
  by (simp add: double_eval)

lemma real_unat_ge1: "w \<noteq> 0 \<Longrightarrow> 1 \<le> real (unat w)" for w :: size_t
proof -
  assume "w \<noteq> 0"
  then have "0 < unat w" by (simp add: unat_gt_0)
  then have "1 \<le> unat w" by simp
  then show ?thesis by (metis of_nat_1 of_nat_le_iff)
qed

lemma real_unat_lt: "real (unat w) < 2 ^ 64" for w :: size_t
proof -
  have "unat w < 2 ^ 64" using unsigned_less [of w] by simp
  then show ?thesis by (metis of_nat_less_iff of_nat_numeral of_nat_power)
qed

lemma double_of_size_mono:
  assumes "w \<noteq> 0" "w \<le> w'"
  shows "round_to_53 (real (unat w)) \<le> round_to_53 (real (unat w'))"
proof -
  have "0 < unat w" using assms by (simp add: unat_gt_0)
  then have "1 \<le> unat w" by simp
  then have x: "1 \<le> real (unat w)" by (metis of_nat_1 of_nat_le_iff)
  have "unat w \<le> unat w'" using assms by (simp add: word_le_nat_alt)
  then have "real (unat w) \<le> real (unat w')" by (simp only: of_nat_le_iff)
  with x show ?thesis by (rule round_to_53_mono)
qed

lemma exp_nrows_too_big:
  fixes n i :: size_t
  assumes n: "2 ^ 64 - 1024 \<le> unat n"
    and i: "unat i + 1 < unat (chunkCount r)"
  shows "size_of_double (exp_nrows r i n) = None"
proof -
  let ?c12 = "5404319552844595 / 4503599627370496 :: real"
  let ?b0 = "18446744073709549568 :: real"
  let ?N = "round_to_53 (real (unat n))"
  let ?C = "round_to_53 (real (unat (chunkCount r)))"
  let ?I = "round_to_53 (real (unat (i + 1)))"
  let ?e = "1 - 1 / 2 ^ 53 :: real"
  have "unat (chunkCount r) < 2 ^ 64" using unsigned_less [of "chunkCount r"] by simp
  with i have "unat i + unat (1 :: size_t) < 2 ^ LENGTH(64)" by simp
  then have "unat (i + 1) = unat i + unat (1 :: size_t)" by (simp only: unat_add_lem [THEN iffD1])
  then have i1: "unat (i + 1) = unat i + 1" by simp
  have nn: "18446744073709550592 \<le> unat n" using n by simp
  then have "0 < unat n" by simp
  then have n0: "n \<noteq> 0" by (simp add: unat_gt_0)
  have "0 < unat (chunkCount r)" using i by simp
  then have c0: "chunkCount r \<noteq> 0" by (simp add: unat_gt_0)
  have "0 < unat (i + 1)" using i1 by simp
  then have i0: "i + 1 \<noteq> 0" by (simp add: unat_gt_0)
  note N = double_of_size_pos [OF n0]
  note C = double_of_size_pos [OF c0]
  note I = double_of_size_pos [OF i0]
  have "?b0 \<le> real (unat n)" using nn by linarith
  then have "round_to_53 ?b0 \<le> ?N" by (intro round_to_53_mono) simp_all
  then have Nlb: "?b0 \<le> ?N" by (simp only: round_to_53_below_2p64)
  have "i + 1 \<le> chunkCount r" using i i1 by (simp add: word_le_nat_alt)
  from double_of_size_mono [OF i0 this] have IC: "?I \<le> ?C" .
  define b1 where "b1 = round_to_53 (?c12 * ?b0)"
  have "?c12 * ?b0 * ?e \<le> b1" unfolding b1_def by (rule round_to_53_lower) simp
  moreover have "22000000000000000000 \<le> ?c12 * ?b0 * ?e" by simp
  ultimately have b1: "22000000000000000000 \<le> b1" by linarith
  have "at_least ?c12 (Fin ?c12)" by (simp add: at_least_def)
  from at_least_dmul [OF this, of ?N] N
  have "at_least (round_to_53 (?c12 * ?N)) (dmul double_1_2 (double_of_size n))"
    by (simp add: double_1_2_val)
  moreover have "b1 \<le> round_to_53 (?c12 * ?N)"
    unfolding b1_def using Nlb by (intro round_to_53_mono) simp_all
  ultimately have v1: "at_least b1 (dmul double_1_2 (double_of_size n))" by (rule at_least_weaken)
  define a2 where "a2 = round_to_53 (b1 * ?C)"
  have b1ge: "1 \<le> b1" using b1 by linarith
  have Cge: "1 \<le> ?C" using C by simp
  have Ige: "1 \<le> ?I" using I by simp
  from at_least_dmul [OF v1 b1ge Cge] C
  have v2: "at_least a2 (dmul (dmul double_1_2 (double_of_size n)) (double_of_size (chunkCount r)))"
    unfolding a2_def by simp
  have "1 * 1 \<le> b1 * ?C" using b1ge Cge by (intro mult_mono) simp_all
  then have "b1 * ?C * ?e \<le> a2" unfolding a2_def by (intro round_to_53_lower) simp
  moreover have "b1 * ?I \<le> b1 * ?C" using IC b1ge by (intro mult_left_mono) simp_all
  then have "b1 * ?I * ?e \<le> b1 * ?C * ?e" by (intro mult_right_mono) simp_all
  ultimately have a2: "b1 * ?I * ?e \<le> a2" by linarith
  have "18446744073709551616 \<le> b1 * ?e" using b1 by simp
  then have "18446744073709551616 * ?I \<le> (b1 * ?e) * ?I" using Ige by (intro mult_right_mono) simp_all
  also have "(b1 * ?e) * ?I = b1 * ?I * ?e" by (simp only: mult.assoc mult.commute [of ?e])
  also note a2
  finally have big: "18446744073709551616 * ?I \<le> a2" .
  then have Ia2: "?I \<le> a2" using Ige by linarith
  from at_least_ddiv [OF v2 Ige Ia2] I
  have v3: "at_least (round_to_53 (a2 / ?I)) (exp_nrows r i n)"
    unfolding exp_nrows_def by simp
  have "18446744073709551616 \<le> a2 / ?I" using big Ige by (simp add: pos_le_divide_eq)
  then have "round_to_53 18446744073709551616 \<le> round_to_53 (a2 / ?I)"
    by (intro round_to_53_mono) simp_all
  then have "2 ^ 64 \<le> round_to_53 (a2 / ?I)" by (simp only: round_to_53_2p64) simp
  with v3 have "at_least (2 ^ 64) (exp_nrows r i n)" by (rule at_least_weaken)
  then show ?thesis by (rule size_of_double_too_big)
qed

lemma not_last_chunk:
  fixes i c :: size_t
  assumes "i < c" "i \<noteq> c - 1"
  shows "unat i + 1 < unat c"
proof -
  have ic: "unat i < unat c" using assms(1) by (simp add: word_less_nat_alt)
  then have "c \<noteq> 0" by auto
  then have c1: "unat (c - 1) = unat c - 1" by (simp add: unat_minus_one)
  have "unat i \<noteq> unat (c - 1)" using assms(2) by (simp add: word_unat_eq_iff)
  with ic c1 show ?thesis by simp
qed

lemma plus_1024_greater:
  fixes a :: size_t
  assumes "unat a < 2 ^ 64 - 1024"
  shows "a < 1024 + a"
proof -
  have "unat (1024 :: size_t) + unat a < 2 ^ LENGTH(64)" using assms by simp
  then have "unat (1024 + a) = unat (1024 :: size_t) + unat a" by (simp only: unat_add_lem [THEN iffD1])
  then show ?thesis by (simp add: word_less_nat_alt)
qed

lemma realloc_policy:
  "realloc_output_columns env i n r =
     (case (if i = chunkCount r - 1 then Some n
            else case size_of_double (exp_nrows r i n) of
                   None \<Rightarrow> None
                 | Some x \<Rightarrow> Some (max x (1024 + nrows_allocated r))) of
        None \<Rightarrow> None
      | Some a \<Rightarrow>
          Some (set_nrows env (min a (nrows_max r)) (r\<lparr>nrows_allocated := min a (nrows_max r)\<rparr>)))"
  by (auto simp: realloc_output_columns_def Let_def min_def split: option.splits)

lemma set_nrows_counters:
  "set_nrows env k r = (e, r') \<Longrightarrow>
     nrows_allocated r' = nrows_allocated r \<and> nrows_max r' = nrows_max r"
  by (auto simp: set_nrows_def split: option.splits)

lemma realloc_allocated:
  assumes "realloc_output_columns env i n r = Some (e, r')"
  shows "\<exists>a. nrows_allocated r' = min a (nrows_max r) \<and> nrows_max r' = nrows_max r \<and>
             (if i = chunkCount r - 1 then a = n
              else \<exists>x. size_of_double (exp_nrows r i n) = Some x \<and>
                       a = max x (1024 + nrows_allocated r))"
  using assms unfolding realloc_policy
  by (auto split: option.splits if_splits dest!: set_nrows_counters)

lemma realloc_increases:
  assumes na: "nrows_allocated r < n" and nm: "nrows_allocated r < nrows_max r"
    and i: "i < chunkCount r"
    and re: "realloc_output_columns env i n r = Some (e, r')"
  shows "nrows_allocated r < nrows_allocated r' \<and> nrows_allocated r' \<le> nrows_max r'"
proof -
  from realloc_allocated [OF re] obtain a where
    a: "nrows_allocated r' = min a (nrows_max r)" and m: "nrows_max r' = nrows_max r"
    and c: "if i = chunkCount r - 1 then a = n
            else \<exists>x. size_of_double (exp_nrows r i n) = Some x \<and>
                     a = max x (1024 + nrows_allocated r)" by blast
  have "nrows_allocated r < a"
  proof (cases "i = chunkCount r - 1")
    case True
    with c na show ?thesis by simp
  next
    case False
    with c obtain x where x: "size_of_double (exp_nrows r i n) = Some x"
      and ax: "a = max x (1024 + nrows_allocated r)" by auto
    have "unat (nrows_allocated r) < 2 ^ 64 - 1024"
    proof (rule ccontr)
      assume "\<not> unat (nrows_allocated r) < 2 ^ 64 - 1024"
      moreover have "unat (nrows_allocated r) < unat n" using na by (simp add: word_less_nat_alt)
      ultimately have "2 ^ 64 - 1024 \<le> unat n" by simp
      from exp_nrows_too_big [OF this not_last_chunk [OF i False]] x show False by simp
    qed
    then have "nrows_allocated r < 1024 + nrows_allocated r" by (rule plus_1024_greater)
    then show ?thesis unfolding ax by (simp add: less_max_iff_disj)
  qed
  with nm a m show ?thesis by simp
qed

lemma order_chunk_counters:
  assumes "order_chunk env (r, t) = (e, r', t')"
  shows "nrows_written r' = nrows_written r \<and> nrows_allocated r' = nrows_allocated r \<and>
         nrows_max r' = nrows_max r \<and> chunkCount r' = chunkCount r"
  using order_chunk_frame [OF assms] by simp

lemma commit_try_nrows_allocated:
  assumes inv: "nrows_allocated r \<le> nrows_max r" and i: "i < chunkCount r"
    and c: "commit_try env i (r, t) = Some (e, r', t')"
  shows "nrows_allocated r \<le> nrows_allocated r' \<and> nrows_allocated r' \<le> nrows_max r' \<and>
         chunkCount r' = chunkCount r"
proof -
  let ?t0 = "t\<lparr>tctx := (tctx t)\<lparr>row0 := nrows_written r\<rparr>\<rparr>"
  obtain e1 r1 t1 where oc: "order_chunk env (r, ?t0) = (e1, r1, t1)"
    by (cases "order_chunk env (r, ?t0)")
  note f = order_chunk_counters [OF oc]
  show ?thesis
  proof (cases e1)
    case (Some err)
    with c oc f inv show ?thesis by (auto simp: commit_try_def)
  next
    case None
    let ?new = "nrows_written r1 + used_nrows (tctx t1)"
    show ?thesis
    proof (cases "?new > nrows_allocated r1 \<and> nrows_allocated r1 \<noteq> nrows_max r1")
      case True
      with c oc None obtain e2 r2 where
        re: "realloc_output_columns env i ?new r1 = Some (e2, r2)"
        and r': "r' = r2 \<or> r' = r2\<lparr>nrows_written := ?new\<rparr>"
        by (auto simp: commit_try_def Let_def split: option.splits prod.splits)
      have "nrows_allocated r1 < nrows_max r1" using True inv f by auto
      from realloc_increases [OF _ this _ re] True i f realloc_frame [OF re]
      have "nrows_allocated r1 < nrows_allocated r2 \<and> nrows_allocated r2 \<le> nrows_max r2 \<and>
            chunkCount r2 = chunkCount r1" by simp
      with r' f show ?thesis by auto
    next
      case False
      with c oc None f inv show ?thesis
        by (auto simp: commit_try_def Let_def split: option.splits prod.splits if_splits)
    qed
  qed
qed

lemma exp_nrows_accuracy:
  fixes n i :: size_t
  assumes n: "n \<noteq> 0" and i: "i < chunkCount r"
  shows "\<exists>f. exp_nrows r i n = Fin f \<and>
             6 / 5 * real (unat n) * real (unat (chunkCount r)) / (real (unat i) + 1) *
               (1 - 1 / 2 ^ 50) \<le> f \<and>
             f \<le> 6 / 5 * real (unat n) * real (unat (chunkCount r)) / (real (unat i) + 1) *
               (1 + 1 / 2 ^ 50)"
proof -
  have ic: "unat i < unat (chunkCount r)" using i by (simp add: word_less_nat_alt)
  have "unat (chunkCount r) < 2 ^ 64" using unsigned_less [of "chunkCount r"] by simp
  with ic have "unat i + unat (1 :: size_t) < 2 ^ LENGTH(64)" by simp
  then have "unat (i + 1) = unat i + unat (1 :: size_t)" by (simp only: unat_add_lem [THEN iffD1])
  then have i1: "unat (i + 1) = unat i + 1" by simp
  then have "0 < unat (i + 1)" by simp
  then have i0: "i + 1 \<noteq> 0" by (simp add: unat_gt_0)
  have "0 < unat (chunkCount r)" using ic by simp
  then have c0: "chunkCount r \<noteq> 0" by (simp add: unat_gt_0)
  have j: "real (unat (i + 1)) = real (unat i) + 1" using i1 by simp
  have jc: "real (unat i) + 1 \<le> real (unat (chunkCount r))" using ic by linarith
  have j1: "1 \<le> real (unat i) + 1" by linarith
  from double_of_size_pos [OF n] double_of_size_pos [OF c0] double_of_size_pos [OF i0]
  have e: "exp_nrows r i n =
      ddiv (dmul (dmul double_1_2 (Fin (round_to_53 (real (unat n)))))
                 (Fin (round_to_53 (real (unat (chunkCount r))))))
           (Fin (round_to_53 (real (unat i) + 1)))"
    unfolding exp_nrows_def j [symmetric] by (simp del: of_nat_unat)
  from exp_chain_accuracy [OF real_unat_ge1 [OF n] real_unat_lt real_unat_lt j1 jc]
  show ?thesis unfolding e .
qed

lemma size_of_double_floor:
  assumes "size_of_double (Fin f) = Some x" "0 \<le> f"
  shows "real (unat x) \<le> f \<and> f < real (unat x) + 1"
proof -
  from assms have t: "0 \<le> \<lfloor>f\<rfloor>" "\<lfloor>f\<rfloor> < 2 ^ 64" and x: "x = word_of_int \<lfloor>f\<rfloor>"
    by (auto simp: size_of_double_def Let_def split: if_splits)
  have "uint x = \<lfloor>f\<rfloor>" unfolding x using t by (simp add: uint_word_of_int take_bit_int_eq_self)
  then have "int (unat x) = \<lfloor>f\<rfloor>" by simp
  then have "real (unat x) = of_int \<lfloor>f\<rfloor>" by (metis of_int_of_nat_eq)
  then show ?thesis by linarith
qed

lemma exp_nrows_two_chunks: "size_of_double (exp_nrows reader_two_chunks 0 2001) = Some 4802"
  by (simp add: exp_nrows_def double_1_2_def reader_two_chunks_def double_eval)

text \<open>
  The claim C4 as stated fails: the expected number of rows is truncated, not rounded up.
  For a request of 2001 rows at the first of two chunks the value is 4802.4; the code
  allocates 4802 rows, the claimed formula gives 4803.
\<close>

theorem realloc_truncates_counterexample:
  "realloc_output_columns exact_parser 0 2001 reader_two_chunks =
     Some (None, reader_two_chunks\<lparr>nrows_allocated := 4802,
                                   g := greader_small\<lparr>columns_nrows := 4802\<rparr>\<rparr>) \<and>
   min (max (nat \<lceil>(12 / 10 :: real) * 2001 * 2 / (0 + 1)\<rceil>) (10 + 1024)) (2 ^ 64 - 1) = 4803"
  by (simp add: realloc_output_columns_def exp_nrows_def double_1_2_def set_nrows_def
      reader_two_chunks_def exact_parser_def double_eval)

text \<open>
  C4, amended. For the last chunk the new allocation is the request; otherwise it is the
  maximum of \<^verbatim>\<open>exp_nrows\<close> truncated to a \<^verbatim>\<open>size_t\<close> (where this conversion is
  defined) and \<open>1024 + nrows_allocated\<close> (modulo \<open>2\<^sup>6\<^sup>4\<close>); in both cases the result is
  clamped to \<open>nrows_max\<close>, stored in \<open>nrows_allocated\<close> and passed to
  \<^verbatim>\<open>set_nrows\<close>. For a nonzero request at a chunk index below \<open>chunkCount\<close>, the
  truncated value \<open>x\<close> lies between \<open>v (1 - 2\<^sup>-\<^sup>5\<^sup>0) - 1\<close> and \<open>v (1 + 2\<^sup>-\<^sup>5\<^sup>0)\<close>, where
  \<open>v = 1.2 \<sdot> new_required \<sdot> chunkCount / (i + 1)\<close> is the exact quotient.
\<close>

theorem realloc_output_columns_policy:
  "realloc_output_columns env i new_required r =
     (case (if i = chunkCount r - 1 then Some new_required
            else case size_of_double (exp_nrows r i new_required) of
                   None \<Rightarrow> None
                 | Some x \<Rightarrow> Some (max x (1024 + nrows_allocated r))) of
        None \<Rightarrow> None
      | Some new_alloc \<Rightarrow>
          Some (set_nrows env (min new_alloc (nrows_max r))
                  (r\<lparr>nrows_allocated := min new_alloc (nrows_max r)\<rparr>))) \<and>
   (new_required \<noteq> 0 \<and> i < chunkCount r \<and>
    size_of_double (exp_nrows r i new_required) = Some x \<longrightarrow>
      6 / 5 * real (unat new_required) * real (unat (chunkCount r)) / (real (unat i) + 1) *
        (1 - 1 / 2 ^ 50) - 1 < real (unat x) \<and>
      real (unat x) \<le>
        6 / 5 * real (unat new_required) * real (unat (chunkCount r)) / (real (unat i) + 1) *
        (1 + 1 / 2 ^ 50))"
proof (intro conjI impI)
  show "realloc_output_columns env i new_required r =
     (case (if i = chunkCount r - 1 then Some new_required
            else case size_of_double (exp_nrows r i new_required) of
                   None \<Rightarrow> None
                 | Some x \<Rightarrow> Some (max x (1024 + nrows_allocated r))) of
        None \<Rightarrow> None
      | Some new_alloc \<Rightarrow>
          Some (set_nrows env (min new_alloc (nrows_max r))
                  (r\<lparr>nrows_allocated := min new_alloc (nrows_max r)\<rparr>)))"
    by (rule realloc_policy)
next
  let ?v = "6 / 5 * real (unat new_required) * real (unat (chunkCount r)) / (real (unat i) + 1)"
  assume a: "new_required \<noteq> 0 \<and> i < chunkCount r \<and>
    size_of_double (exp_nrows r i new_required) = Some x"
  then obtain f where f: "exp_nrows r i new_required = Fin f"
    and lo: "?v * (1 - 1 / 2 ^ 50) \<le> f" and hi: "f \<le> ?v * (1 + 1 / 2 ^ 50)"
    using exp_nrows_accuracy [of new_required i r] by blast
  have "0 \<le> ?v" by (intro divide_nonneg_nonneg mult_nonneg_nonneg add_nonneg_nonneg of_nat_0_le_iff) simp_all
  then have "0 \<le> ?v * (1 - 1 / 2 ^ 50)" by (intro mult_nonneg_nonneg) simp_all
  with lo have f0: "0 \<le> f" by linarith
  from a f have "size_of_double (Fin f) = Some x" by simp
  from size_of_double_floor [OF this f0] lo hi
  show "?v * (1 - 1 / 2 ^ 50) - 1 < real (unat x)" and "real (unat x) \<le> ?v * (1 + 1 / 2 ^ 50)"
    by linarith+
qed

theorem realloc_output_columns_policy_witness:
  "(2001 :: size_t) \<noteq> 0 \<and> 0 < chunkCount reader_two_chunks \<and>
   size_of_double (exp_nrows reader_two_chunks 0 2001) = Some 4802 \<and>
   6 / 5 * 2001 * 2 / (0 + 1) * (1 - 1 / 2 ^ 50) - 1 < (4802 :: real) \<and>
   (4802 :: real) \<le> 6 / 5 * 2001 * 2 / (0 + 1) * (1 + 1 / 2 ^ 50)"
proof -
  have a: "(2001 :: size_t) \<noteq> 0" by simp
  have b: "0 < chunkCount reader_two_chunks" by (simp add: reader_two_chunks_def)
  have c: "real (unat (chunkCount reader_two_chunks)) = 2" by (simp add: reader_two_chunks_def)
  from realloc_output_columns_policy [THEN conjunct2, THEN mp,
      OF conjI [OF a conjI [OF b exp_nrows_two_chunks]]]
  have "6 / 5 * real (unat (2001 :: size_t)) * real (unat (chunkCount reader_two_chunks)) /
          (real (unat (0 :: size_t)) + 1) * (1 - 1 / 2 ^ 50) - 1 < real (unat (4802 :: size_t)) \<and>
        real (unat (4802 :: size_t)) \<le>
          6 / 5 * real (unat (2001 :: size_t)) * real (unat (chunkCount reader_two_chunks)) /
          (real (unat (0 :: size_t)) + 1) * (1 + 1 / 2 ^ 50)" .
  then have "6 / 5 * 2001 * 2 / (0 + 1) * (1 - 1 / 2 ^ 50) - 1 < (4802 :: real) \<and>
   (4802 :: real) \<le> 6 / 5 * 2001 * 2 / (0 + 1) * (1 + 1 / 2 ^ 50)"
    unfolding c by simp
  with a b exp_nrows_two_chunks show ?thesis by blast
qed

lemma commit_phase_nrows_allocated:
  assumes inv: "nrows_allocated (rdr w) \<le> nrows_max (rdr w)" and i: "i < chunkCount (rdr w)"
    and c: "commit_phase env i (w, t) = Some (w', t')"
  shows "nrows_allocated (rdr w) \<le> nrows_allocated (rdr w') \<and>
         nrows_allocated (rdr w') \<le> nrows_max (rdr w') \<and>
         chunkCount (rdr w') = chunkCount (rdr w)"
proof (cases "exception_caught w")
  case True
  with c inv show ?thesis by (simp add: commit_phase_def)
next
  case False
  with c obtain e r1 where ct: "commit_try env i (rdr w, t) = Some (e, r1, t')"
    and r: "rdr w' = r1"
    by (auto simp: commit_phase_def capture_exception_rdr split: option.splits prod.splits)
  from commit_try_nrows_allocated [OF inv i ct] r show ?thesis by simp
qed

lemma iteration_nrows_allocated:
  assumes "nrows_allocated (rdr w) \<le> nrows_max (rdr w)" "i < chunkCount (rdr w)"
    and "iteration env i (w, t) = Some (w', t')"
  shows "nrows_allocated (rdr w) \<le> nrows_allocated (rdr w') \<and>
         nrows_allocated (rdr w') \<le> nrows_max (rdr w') \<and>
         chunkCount (rdr w') = chunkCount (rdr w)"
proof (cases "exception_caught w")
  case True
  with assms show ?thesis by (simp add: iteration_def)
next
  case False
  obtain w1 t1 where p: "parse_phase env i (w, t) = (w1, t1)" by (cases "parse_phase env i (w, t)")
  with assms False have c: "commit_phase env i (w1, t1) = Some (w', t')" by (simp add: iteration_def)
  from parse_phase_rdr [OF p] have r: "rdr w1 = rdr w" .
  from commit_phase_nrows_allocated [OF _ _ c] assms(1,2) r show ?thesis by simp
qed

lemma chunk_loop_nrows_allocated:
  "nrows_allocated (rdr (fst st)) \<le> nrows_max (rdr (fst st)) \<Longrightarrow>
   \<forall>j \<in> set is. j < chunkCount (rdr (fst st)) \<Longrightarrow>
   chunk_loop env is st = Some st' \<Longrightarrow>
     nrows_allocated (rdr (fst st)) \<le> nrows_allocated (rdr (fst st')) \<and>
     nrows_allocated (rdr (fst st')) \<le> nrows_max (rdr (fst st'))"
proof (induction "is" arbitrary: st)
  case Nil
  then show ?case by simp
next
  case (Cons i "is")
  from Cons.prems(3) obtain st1 where it: "iteration env i st = Some st1"
    and l: "chunk_loop env is st1 = Some st'" by (auto split: option.splits)
  from Cons.prems(2) have i: "i < chunkCount (rdr (fst st))" by simp
  from iteration_nrows_allocated [of "fst st" i env "snd st" "fst st1" "snd st1"] Cons.prems(1) i it
  have s: "nrows_allocated (rdr (fst st)) \<le> nrows_allocated (rdr (fst st1))"
    "nrows_allocated (rdr (fst st1)) \<le> nrows_max (rdr (fst st1))"
    "chunkCount (rdr (fst st1)) = chunkCount (rdr (fst st))" by simp_all
  from Cons.prems(2) s(3) have "\<forall>j \<in> set is. j < chunkCount (rdr (fst st1))" by simp
  from Cons.IH [OF s(2) this l] s(1) show ?case by auto
qed

lemma thread_exit_rdr: "thread_exit env (w, t) = Some (w', t') \<Longrightarrow> rdr w' = rdr w"
  by (auto simp: thread_exit_def final_progress_def final_push_def discard_buffers_def
      emit_progress_def capture_exception_rdr split: if_splits option.splits prod.splits)

lemma planner_counters:
  "determine_chunking_strategy r = Some r' \<Longrightarrow>
     nrows_allocated r' = nrows_allocated r \<and> nrows_max r' = nrows_max r \<and>
     nrows_written r' = nrows_written r"
  by (auto simp: determine_chunking_strategy_def Let_def split: option.splits if_splits)

text \<open>
  C10. A call of \<^verbatim>\<open>realloc_output_columns\<close> for a chunk of the loop, with a request
  above \<open>nrows_allocated\<close> and \<open>nrows_allocated\<close> below \<open>nrows_max\<close>, strictly increases
  \<open>nrows_allocated\<close> (when it returns at all). Over the loop of a worker
  \<open>nrows_allocated\<close> never decreases and stays at most \<open>nrows_max\<close>; the reconciler, the
  parse phase, the code after the loop and the planner leave it as it is.
\<close>

theorem nrows_allocated_never_decreases:
  "(nrows_allocated r < new_alloc \<and> nrows_allocated r < nrows_max r \<and> i < chunkCount r \<and>
    realloc_output_columns env i new_alloc r = Some (e, r') \<longrightarrow>
      nrows_allocated r < nrows_allocated r') \<and>
   (nrows_allocated (rdr w) \<le> nrows_max (rdr w) \<and> (\<forall>j \<in> set is. j < chunkCount (rdr w)) \<and>
    chunk_loop env is (w, t) = Some (w', t') \<longrightarrow>
      nrows_allocated (rdr w) \<le> nrows_allocated (rdr w') \<and>
      nrows_allocated (rdr w') \<le> nrows_max (rdr w')) \<and>
   (order_chunk env (r, t0) = (e1, r1, t1) \<longrightarrow> nrows_allocated r1 = nrows_allocated r) \<and>
   (parse_phase env i (w, t) = (w2, t2) \<longrightarrow> rdr w2 = rdr w) \<and>
   (thread_exit env (w, t) = Some (w3, t3) \<longrightarrow> rdr w3 = rdr w) \<and>
   (determine_chunking_strategy r = Some r4 \<longrightarrow> nrows_allocated r4 = nrows_allocated r)"
proof (intro conjI impI)
  assume "nrows_allocated r < new_alloc \<and> nrows_allocated r < nrows_max r \<and> i < chunkCount r \<and>
    realloc_output_columns env i new_alloc r = Some (e, r')"
  then show "nrows_allocated r < nrows_allocated r'"
    using realloc_increases [of r new_alloc i env e r'] by blast
next
  assume a: "nrows_allocated (rdr w) \<le> nrows_max (rdr w) \<and>
    (\<forall>j \<in> set is. j < chunkCount (rdr w)) \<and> chunk_loop env is (w, t) = Some (w', t')"
  from chunk_loop_nrows_allocated [of "(w, t)" "is" env "(w', t')"] a
  show "nrows_allocated (rdr w) \<le> nrows_allocated (rdr w')"
    and "nrows_allocated (rdr w') \<le> nrows_max (rdr w')" by simp_all
next
  assume "order_chunk env (r, t0) = (e1, r1, t1)"
  then show "nrows_allocated r1 = nrows_allocated r" by (simp add: order_chunk_counters)
next
  assume "parse_phase env i (w, t) = (w2, t2)"
  then show "rdr w2 = rdr w" by (rule parse_phase_rdr)
next
  assume "thread_exit env (w, t) = Some (w3, t3)"
  then show "rdr w3 = rdr w" by (rule thread_exit_rdr)
next
  assume "determine_chunking_strategy r = Some r4"
  then show "nrows_allocated r4 = nrows_allocated r" by (simp add: planner_counters)
qed

lemma realloc_long_line:
  "realloc_output_columns exact_parser 1 15 reader_long_line =
     Some (None, reader_long_line\<lparr>nrows_allocated := 1034,
                                  g := greader_small\<lparr>eof := 4246, columns_nrows := 1034\<rparr>\<rparr>)"
  by (simp add: realloc_output_columns_def exp_nrows_def double_1_2_def set_nrows_def
      reader_long_line_def exact_parser_def double_eval)

theorem nrows_allocated_never_decreases_witness:
  "nrows_allocated reader_long_line < 15 \<and>
   nrows_allocated reader_long_line < nrows_max reader_long_line \<and>
   1 < chunkCount reader_long_line \<and>
   realloc_output_columns exact_parser 1 15 reader_long_line =
     Some (None, reader_long_line\<lparr>nrows_allocated := 1034,
                                  g := greader_small\<lparr>eof := 4246, columns_nrows := 1034\<rparr>\<rparr>) \<and>
   nrows_allocated reader_long_line < 1034"
proof -
  have a: "nrows_allocated reader_long_line < 15" by (simp add: reader_long_line_def)
  have b: "nrows_allocated reader_long_line < nrows_max reader_long_line"
    by (simp add: reader_long_line_def)
  have c: "1 < chunkCount reader_long_line" by (simp add: reader_long_line_def)
  from nrows_allocated_never_decreases [THEN conjunct1, THEN mp, OF conjI [OF a conjI [OF b conjI [OF c realloc_long_line]]]]
  have "nrows_allocated reader_long_line < 1034" by simp
  with a b c realloc_long_line show ?thesis by simp
qed

section \<open>After the loop\<close>

text \<open>
  C5. When an exception has been captured, the worker resets \<open>used_nrows\<close> to 0 after
  the loop, and the final push then does nothing: \<^verbatim>\<open>push_buffers\<close> is not called
  and the worker is left with no rows to push. In general the final push calls
  \<^verbatim>\<open>push_buffers\<close> exactly when \<open>used_nrows\<close> is not 0.
\<close>

theorem error_path_discards_buffers:
  assumes "exception_caught w"
  shows "discard_buffers (w, t) = (w, t\<lparr>tctx := (tctx t)\<lparr>used_nrows := 0\<rparr>\<rparr>) \<and>
         final_push env (discard_buffers (w, t)) = discard_buffers (w, t) \<and>
         calls (snd (final_push env (discard_buffers (w, t)))) = calls t \<and>
         used_nrows (tctx (snd (final_push env (discard_buffers (w, t))))) = 0 \<and>
         calls (snd (final_push env (w, t))) =
           (if used_nrows (tctx t) = 0 then calls t else calls t @ [PushBuffers])"
  using assms
  by (auto simp: discard_buffers_def final_push_def call_push_buffers_def split: prod.splits option.splits)

theorem error_path_discards_buffers_witness:
  "exception_caught run_failed \<and>
   used_nrows (tctx worker_second) = 5 \<and>
   final_push exact_parser (discard_buffers (run_failed, worker_second)) =
     (run_failed, worker_second\<lparr>tctx := (tctx worker_second)\<lparr>used_nrows := 0\<rparr>\<rparr>) \<and>
   calls (snd (final_push exact_parser (discard_buffers (run_failed, worker_second)))) =
     calls worker_second"
proof -
  have h: "exception_caught run_failed" by (simp add: exception_caught_def run_failed_def)
  have u: "used_nrows (tctx worker_second) = 5" by (simp add: worker_second_def)
  from error_path_discards_buffers [OF h, of worker_second exact_parser] h u
  show ?thesis by metis
qed

section \<open>Progress reports\<close>

lemma call_read_chunk_flags:
  "call_read_chunk env t = (e, t') \<Longrightarrow>
     tShowAlways t' = tShowAlways t \<and> tShowProgress t' = tShowProgress t"
  by (auto simp: call_read_chunk_def split: prod.splits)

lemma call_push_buffers_flags:
  "call_push_buffers env t = (e, t') \<Longrightarrow>
     tShowAlways t' = tShowAlways t \<and> tShowProgress t' = tShowProgress t"
  by (auto simp: call_push_buffers_def split: prod.splits)

lemma call_orderBuffer_flags:
  "call_orderBuffer env t = (e, t') \<Longrightarrow>
     tShowAlways t' = tShowAlways t \<and> tShowProgress t' = tShowProgress t"
  by (auto simp: call_orderBuffer_def split: prod.splits)

lemma order_chunk_flags:
  "order_chunk env (r, t) = (e, r', t') \<Longrightarrow>
     tShowAlways t' = tShowAlways t \<and> tShowProgress t' = tShowProgress t"
  by (auto simp: order_chunk_unfold split: if_splits prod.splits option.splits
      dest!: call_read_chunk_flags)

lemma commit_try_flags:
  "commit_try env i (r, t) = Some (e, r', t') \<Longrightarrow>
     tShowAlways t' = tShowAlways t \<and> tShowProgress t' = tShowProgress t"
  by (auto simp: commit_try_def Let_def split: if_splits prod.splits option.splits
      dest!: order_chunk_flags call_orderBuffer_flags)

lemma commit_phase_flags:
  "commit_phase env i (w, t) = Some (w', t') \<Longrightarrow>
     tShowAlways t' = tShowAlways t \<and> tShowProgress t' = tShowProgress t"
  by (auto simp: commit_phase_def split: if_splits prod.splits option.splits
      dest!: commit_try_flags)

lemma show_progress_flags:
  "show_progress env (w, t) = (e, w', t') \<Longrightarrow>
     tShowProgress t' = tShowProgress t \<and>
     (tShowAlways t' \<longrightarrow> tShowAlways t \<or> tShowProgress t)"
  by (auto simp: show_progress_def split: if_splits prod.splits option.splits)

lemma parse_phase_flags:
  "parse_phase env i (w, t) = (w', t') \<Longrightarrow>
     tShowProgress t' = tShowProgress t \<and>
     (tShowAlways t' \<longrightarrow> tShowAlways t \<or> tShowProgress t)"
  by (auto simp: parse_phase_def parse_try_def split: if_splits prod.splits option.splits sum.splits
      dest!: show_progress_flags call_push_buffers_flags call_read_chunk_flags)

lemma iteration_flags:
  assumes "iteration env i (w, t) = Some (w', t')"
  shows "tShowProgress t' = tShowProgress t \<and>
         (tShowAlways t' \<longrightarrow> tShowAlways t \<or> tShowProgress t)"
proof (cases "exception_caught w")
  case True
  with assms show ?thesis by (simp add: iteration_def)
next
  case False
  obtain w1 t1 where p: "parse_phase env i (w, t) = (w1, t1)" by (cases "parse_phase env i (w, t)")
  with assms False have "commit_phase env i (w1, t1) = Some (w', t')" by (simp add: iteration_def)
  from commit_phase_flags [OF this] parse_phase_flags [OF p] show ?thesis by simp
qed

lemma chunk_loop_flags:
  "chunk_loop env is st = Some st' \<Longrightarrow>
     tShowProgress (snd st') = tShowProgress (snd st) \<and>
     (tShowAlways (snd st') \<longrightarrow> tShowAlways (snd st) \<or> tShowProgress (snd st))"
proof (induction "is" arbitrary: st)
  case Nil
  then show ?case by simp
next
  case (Cons i "is")
  from Cons.prems obtain st1 where i: "iteration env i st = Some st1"
    and l: "chunk_loop env is st1 = Some st'" by (auto split: option.splits)
  from iteration_flags [of env i "fst st" "snd st" "fst st1" "snd st1"] i
  have "tShowProgress (snd st1) = tShowProgress (snd st) \<and>
        (tShowAlways (snd st1) \<longrightarrow> tShowAlways (snd st) \<or> tShowProgress (snd st))" by simp
  with Cons.IH [OF l] show ?case by auto
qed

lemma thread_init_flags:
  "thread_init env master w = (w', t) \<Longrightarrow>
     tShowProgress t = (report_progress (g (rdr w)) \<and> master) \<and>
     tShowAlways t = (tShowProgress t \<and> 2 ^ 28 < sint (inputEnd (rdr w) - inputStart (rdr w)))"
  by (auto simp: thread_init_def Let_def split: if_splits prod.splits)

text \<open>
  The claim C6 as stated fails: the run over the small file, with progress reports
  requested and the clock standing still, ends without any progress event.
\<close>

theorem no_final_progress_counterexample:
  "read_all exact_parser reader_small =
     Some (None,
           \<lparr>rdr = reader_small\<lparr>lastChunkEnd := 4196, nrows_written := 10\<rparr>,
             oem = None, progress_log = [], nclock = 2\<rparr>,
           \<lparr>tctx = \<lparr>row0 = 0, used_nrows = 10, buffers = ()\<rparr>,
             txcc = \<lparr>start = 4096, endp = 4196, true_start = True, true_end = True\<rparr>,
             tacc = \<lparr>start = 4096, endp = 4196, true_start = True, true_end = True\<rparr>,
             calls = [PushBuffers,
                      ReadChunk \<lparr>start = 4096, endp = 4196, true_start = True, true_end = True\<rparr>,
                      OrderBuffer, PushBuffers],
             tMaster = True, tShowProgress = True, tShowAlways = False,
             tShowWhen = Fin (3 / 4)\<rparr>)"
  by (simp add: run_eval reader_small_def greader_small_def exact_parser_def double_eval)

text \<open>
  C6, amended. At the end of the parallel region a worker emits one final progress event
  exactly when its flag \<open>tShowAlways\<close> is set, and none otherwise; the status of the
  event is 1 when no exception was captured, 3 when a keyboard interrupt was, 2 for any
  other exception. (An exception of this last report is not caught.) At the end of a
  worker's loop the flag can only be set when \<open>tShowProgress\<close> is, that is when progress
  reports are requested and the worker is the master.
\<close>

theorem final_progress_event:
  "final_progress env (w, t) =
     (if tShowAlways t
      then (if progress_raises env (length (progress_log w)) = None
            then Some (w\<lparr>progress_log := progress_log w @
                          [(work_done_amount (rdr w), Some (final_status w))]\<rparr>, t)
            else None)
      else Some (w, t)) \<and>
   final_status w =
     (if oem w = None then 1 else if oem w = Some KeyboardInterrupt then 3 else 2) \<and>
   (chunk_loop env is (thread_init env master w0) = Some (w1, t1) \<longrightarrow>
      tShowProgress t1 = (report_progress (g (rdr w0)) \<and> master) \<and>
      (tShowAlways t1 \<longrightarrow> tShowProgress t1))"
proof -
  have "tShowProgress t1 = (report_progress (g (rdr w0)) \<and> master) \<and>
        (tShowAlways t1 \<longrightarrow> tShowProgress t1)"
    if l: "chunk_loop env is (thread_init env master w0) = Some (w1, t1)"
  proof -
    obtain wi ti where i: "thread_init env master w0 = (wi, ti)" by (cases "thread_init env master w0")
    from chunk_loop_flags [OF l] thread_init_flags [OF i] i show ?thesis by auto
  qed
  then show ?thesis
    by (auto simp: final_progress_def emit_progress_def final_status_def exception_caught_def
      is_keyboard_interrupt_def split: option.splits)
qed

lemma slow_loop:
  "chunk_loop slow_clock [0] (thread_init slow_clock True (run_of reader_small)) =
     Some (\<lparr>rdr = reader_small\<lparr>lastChunkEnd := 4196, nrows_written := 10\<rparr>,
             oem = None, progress_log = [(Fin 0, None)], nclock = 2\<rparr>,
           \<lparr>tctx = \<lparr>row0 = 0, used_nrows = 10, buffers = ()\<rparr>,
             txcc = \<lparr>start = 4096, endp = 4196, true_start = True, true_end = True\<rparr>,
             tacc = \<lparr>start = 4096, endp = 4196, true_start = True, true_end = True\<rparr>,
             calls = [PushBuffers,
                      ReadChunk \<lparr>start = 4096, endp = 4196, true_start = True, true_end = True\<rparr>,
                      OrderBuffer],
             tMaster = True, tShowProgress = True, tShowAlways = True,
             tShowWhen = Fin (3 / 4)\<rparr>)"
  by (simp add: run_eval run_of_def reader_small_def greader_small_def slow_clock_def exact_parser_def double_eval)

lemma slow_loop':
  "chunk_loop slow_clock [0] (thread_init slow_clock True (run_of reader_small)) =
     Some (run_after_slow, worker_after_slow)"
  unfolding run_after_slow_def worker_after_slow_def by (rule slow_loop)

theorem final_progress_event_witness:
  "chunk_loop slow_clock [0] (thread_init slow_clock True (run_of reader_small)) =
     Some (run_after_slow, worker_after_slow) \<and>
   tShowAlways worker_after_slow \<and> tShowProgress worker_after_slow \<and>
   final_progress slow_clock (run_after_slow, worker_after_slow) =
     Some (run_after_slow\<lparr>progress_log := [(Fin 0, None), (Fin 1, Some 1)]\<rparr>, worker_after_slow)"
proof -
  have a: "tShowAlways worker_after_slow" by (simp add: worker_after_slow_def)
  have r: "progress_raises slow_clock (length (progress_log run_after_slow)) = None"
    by (simp add: slow_clock_def exact_parser_def)
  have s: "oem run_after_slow = None" by (simp add: run_after_slow_def)
  have d: "work_done_amount (rdr run_after_slow) = Fin 1"
    by (simp add: run_after_slow_def reader_small_def work_done_amount_def double_eval)
  have l: "progress_log run_after_slow = [(Fin 0, None)]" by (simp add: run_after_slow_def)
  have sp: "tShowProgress worker_after_slow" by (simp add: worker_after_slow_def)
  note T = final_progress_event [of slow_clock run_after_slow worker_after_slow "[0]" True
      "run_of reader_small" run_after_slow worker_after_slow]
  from T [THEN conjunct1] T [THEN conjunct2, THEN conjunct1] a r s d l
  have fp: "final_progress slow_clock (run_after_slow, worker_after_slow) =
     Some (run_after_slow\<lparr>progress_log := [(Fin 0, None), (Fin 1, Some 1)]\<rparr>, worker_after_slow)"
    by simp
  show ?thesis by (intro conjI slow_loop' a sp fp)
qed

end
